(* ===== verification/Iga_Prelude.thy ===== *)
theory Iga_Prelude
  imports Main "HOL-Library.Word" "HOL-Library.List_Lexorder" "HOL-Library.Char_ord"
begin

text \<open>
  Shared vocabulary of the development: Rust's \<^verbatim>\<open>Result\<close> as a sum, the string routines of
  the standard library that the gateway calls (\<^verbatim>\<open>strip_prefix\<close>, \<^verbatim>\<open>strip_suffix\<close>,
  \<^verbatim>\<open>trim\<close>, \<^verbatim>\<open>split_whitespace\<close>, \<^verbatim>\<open>join\<close>), the ordered set
  \<^verbatim>\<open>BTreeSet\<close> as a strictly sorted list behind an interface, and the collections of
  rewrite rules the component theories use.

  Strings are lists of bytes: a Rust \<^verbatim>\<open>String\<close> is its UTF-8 encoding, so that
  \<^verbatim>\<open>as_bytes\<close> is the identity, equality is byte equality and the order of
  \<^verbatim>\<open>BTreeSet<String>\<close> is the lexicographic order of the bytes.
\<close>

named_theorems result_simps \<open>when a composed fallible computation succeeds or fails\<close>
named_theorems str_simps \<open>evaluation of the string routines\<close>

type_synonym bytes = string
type_synonym usize = "64 word"
type_synonym u16 = "16 word"
type_synonym u32 = "32 word"
type_synonym u64 = "64 word"

section \<open>Result and Option\<close>

type_synonym ('a, 'e) result = "'e + 'a"

abbreviation Ok :: "'a \<Rightarrow> ('a, 'e) result" where
  "Ok \<equiv> Inr"

abbreviation Err :: "'e \<Rightarrow> ('a, 'e) result" where
  "Err \<equiv> Inl"

definition and_then :: "('a, 'e) result \<Rightarrow> ('a \<Rightarrow> ('b, 'e) result) \<Rightarrow> ('b, 'e) result" where
  "and_then r f = (case r of Inl e \<Rightarrow> Err e | Inr x \<Rightarrow> f x)"

definition map_err :: "('e \<Rightarrow> 'f) \<Rightarrow> ('a, 'e) result \<Rightarrow> ('a, 'f) result" where
  "map_err g r = (case r of Inl e \<Rightarrow> Err (g e) | Inr x \<Rightarrow> Ok x)"

definition map_ok :: "('a \<Rightarrow> 'b) \<Rightarrow> ('a, 'e) result \<Rightarrow> ('b, 'e) result" where
  "map_ok g r = (case r of Inl e \<Rightarrow> Err e | Inr x \<Rightarrow> Ok (g x))"

definition ok_or :: "'a option \<Rightarrow> 'e \<Rightarrow> ('a, 'e) result" where
  "ok_or m e = (case m of None \<Rightarrow> Err e | Some x \<Rightarrow> Ok x)"

lemma and_then_simps [simp]:
  "and_then (Err e) f = Err e"
  "and_then (Ok x) f = f x"
  by (simp_all add: and_then_def)

lemma map_err_simps [simp]:
  "map_err g (Err e) = Err (g e)"
  "map_err g (Ok x) = Ok x"
  by (simp_all add: map_err_def)

lemma map_ok_simps [simp]:
  "map_ok g (Err e) = Err e"
  "map_ok g (Ok x) = Ok (g x)"
  by (simp_all add: map_ok_def)

lemma ok_or_simps [simp]:
  "ok_or None e = Err e"
  "ok_or (Some x) e = Ok x"
  by (simp_all add: ok_or_def)

lemma and_then_Ok_iff [result_simps]:
  "and_then r f = Ok y \<longleftrightarrow> (\<exists>x. r = Ok x \<and> f x = Ok y)"
  by (cases r) simp_all

lemma and_then_Err_iff [result_simps]:
  "and_then r f = Err e \<longleftrightarrow> r = Err e \<or> (\<exists>x. r = Ok x \<and> f x = Err e)"
  by (cases r) simp_all

lemma map_err_Ok_iff [result_simps]: "map_err g r = Ok y \<longleftrightarrow> r = Ok y"
  by (cases r) simp_all

lemma map_err_Err_iff [result_simps]: "map_err g r = Err e \<longleftrightarrow> (\<exists>d. r = Err d \<and> e = g d)"
  by (cases r) auto

lemma map_ok_Ok_iff [result_simps]: "map_ok g r = Ok y \<longleftrightarrow> (\<exists>x. r = Ok x \<and> y = g x)"
  by (cases r) auto

lemma map_ok_Err_iff [result_simps]: "map_ok g r = Err e \<longleftrightarrow> r = Err e"
  by (cases r) simp_all

lemma ok_or_Ok_iff [result_simps]: "ok_or m e = Ok x \<longleftrightarrow> m = Some x"
  by (cases m) simp_all

lemma ok_or_Err_iff [result_simps]: "ok_or m e = Err d \<longleftrightarrow> m = None \<and> d = e"
  by (cases m) auto

lemma Ok_ex_iff: "(\<exists>x. r = Ok x) \<longleftrightarrow> (\<forall>e. r \<noteq> Err e)"
  by (cases r) simp_all

lemma and_then_cong [fundef_cong]:
  "r = r' \<Longrightarrow> (\<And>x. r' = Ok x \<Longrightarrow> f x = g x) \<Longrightarrow> and_then r f = and_then r' g"
  by (cases r') simp_all

text \<open>
  A \<^verbatim>\<open>for\<close> loop whose body may leave the function with \<^verbatim>\<open>?\<close>: the first error ends
  the traversal, otherwise the results are collected in order.
\<close>

fun map_result :: "('a \<Rightarrow> ('b, 'e) result) \<Rightarrow> 'a list \<Rightarrow> ('b list, 'e) result" where
  "map_result f [] = Ok []"
| "map_result f (x # xs) =
     (case f x of Inl e \<Rightarrow> Err e | Inr y \<Rightarrow> map_ok (\<lambda>ys. y # ys) (map_result f xs))"

lemma map_result_Ok_iff [result_simps]:
  "map_result f xs = Ok ys \<longleftrightarrow> list_all2 (\<lambda>x y. f x = Ok y) xs ys"
proof (induction xs arbitrary: ys)
  case Nil
  then show ?case by auto
next
  case (Cons x xs)
  show ?case
  proof (cases "f x")
    case (Inl e)
    then show ?thesis by (cases ys) auto
  next
    case (Inr y)
    then show ?thesis by (cases ys) (auto simp: map_ok_Ok_iff Cons.IH)
  qed
qed

text \<open>
  \<open>first_at skip xs x\<close>: some occurrence of \<open>x\<close> in \<open>xs\<close> has only elements that
  satisfy \<open>skip\<close> before it, as for the element at which a loop returns early. \<open>last_at\<close> is
  the same from the other end, as for the last element that overwrites a variable.
\<close>

definition first_at :: "('a \<Rightarrow> bool) \<Rightarrow> 'a list \<Rightarrow> 'a \<Rightarrow> bool" where
  "first_at skip xs x \<longleftrightarrow> (\<exists>before after. xs = before @ x # after \<and> (\<forall>y \<in> set before. skip y))"

definition last_at :: "('a \<Rightarrow> bool) \<Rightarrow> 'a list \<Rightarrow> 'a \<Rightarrow> bool" where
  "last_at skip xs x \<longleftrightarrow> (\<exists>before after. xs = before @ x # after \<and> (\<forall>y \<in> set after. skip y))"

lemma first_at_Nil [simp]: "\<not> first_at skip [] x"
  by (simp add: first_at_def)

lemma first_at_Cons [simp]: "first_at skip (a # xs) x \<longleftrightarrow> x = a \<or> skip a \<and> first_at skip xs x"
proof
  assume "first_at skip (a # xs) x"
  then show "x = a \<or> skip a \<and> first_at skip xs x"
    by (auto simp: first_at_def Cons_eq_append_conv)
next
  assume "x = a \<or> skip a \<and> first_at skip xs x"
  then consider "x = a"
    | before after where "skip a" "xs = before @ x # after" "\<forall>y \<in> set before. skip y"
    by (auto simp: first_at_def)
  then show "first_at skip (a # xs) x"
  proof cases
    case 1
    then show ?thesis unfolding first_at_def by (intro exI [of _ "[]"] exI [of _ xs]) simp
  next
    case 2
    then show ?thesis unfolding first_at_def by (intro exI [of _ "a # before"] exI [of _ after]) simp
  qed
qed

lemma first_at_mem: "first_at skip xs x \<Longrightarrow> x \<in> set xs"
  by (auto simp: first_at_def)

lemma first_at_map:
  "first_at skip (map f xs) y \<longleftrightarrow> (\<exists>x. first_at (\<lambda>x. skip (f x)) xs x \<and> y = f x)"
  by (induction xs) auto

lemma first_at_ex:
  "(\<exists>x. first_at (\<lambda>y. \<not> P y) xs x \<and> P x) \<longleftrightarrow> (\<exists>x \<in> set xs. P x)"
  by (induction xs) auto

lemma last_at_rev: "last_at skip xs x \<longleftrightarrow> first_at skip (rev xs) x"
proof
  assume "last_at skip xs x"
  then obtain before after where "xs = before @ x # after" and "\<forall>y \<in> set after. skip y"
    by (auto simp: last_at_def)
  then show "first_at skip (rev xs) x"
    unfolding first_at_def by (intro exI [of _ "rev after"] exI [of _ "rev before"]) simp
next
  assume "first_at skip (rev xs) x"
  then obtain before after where rev: "rev xs = before @ x # after"
    and skip: "\<forall>y \<in> set before. skip y"
    by (auto simp: first_at_def)
  from rev have "xs = rev (before @ x # after)" by (metis rev_rev_ident)
  with skip show "last_at skip xs x"
    unfolding last_at_def by (intro exI [of _ "rev after"] exI [of _ "rev before"]) simp
qed

lemma map_result_Err_iff [result_simps]:
  "map_result f xs = Err e \<longleftrightarrow> (\<exists>x. first_at (\<lambda>y. \<exists>v. f y = Ok v) xs x \<and> f x = Err e)"
proof (induction xs)
  case Nil
  then show ?case by simp
next
  case (Cons a xs)
  then show ?case by (cases "f a") (auto simp: map_ok_Err_iff)
qed

lemma map_result_append:
  "map_result f (xs @ ys) =
     and_then (map_result f xs) (\<lambda>us. map_ok (\<lambda>vs. us @ vs) (map_result f ys))"
proof (induction xs)
  case Nil
  then show ?case by (cases "map_result f ys") simp_all
next
  case (Cons x xs)
  then show ?case
    by (cases "f x"; cases "map_result f xs"; cases "map_result f ys") simp_all
qed

lemma map_result_total:
  "(\<And>x. x \<in> set xs \<Longrightarrow> f x = Ok (g x)) \<Longrightarrow> map_result f xs = Ok (map g xs)"
  by (induction xs) simp_all

section \<open>String routines of the standard library\<close>

fun strip_prefix :: "string \<Rightarrow> string \<Rightarrow> string option" where
  "strip_prefix [] s = Some s"
| "strip_prefix (p # ps) [] = None"
| "strip_prefix (p # ps) (c # cs) = (if p = c then strip_prefix ps cs else None)"

definition starts_with :: "string \<Rightarrow> char \<Rightarrow> bool" where
  "starts_with s c = (case s of [] \<Rightarrow> False | d # _ \<Rightarrow> d = c)"

definition strip_suffix_char :: "char \<Rightarrow> string \<Rightarrow> string option" where
  "strip_suffix_char c s = (if s \<noteq> [] \<and> last s = c then Some (butlast s) else None)"

lemma strip_prefix_Some_iff [str_simps]: "strip_prefix p s = Some r \<longleftrightarrow> s = p @ r"
  by (induction p s rule: strip_prefix.induct) auto

lemma strip_prefix_append [simp]: "strip_prefix p (p @ r) = Some r"
  by (simp add: strip_prefix_Some_iff)

lemma strip_prefix_None_iff [str_simps]: "strip_prefix p s = None \<longleftrightarrow> (\<forall>r. s \<noteq> p @ r)"
  by (metis not_Some_eq strip_prefix_Some_iff)

lemma strip_suffix_char_Some_iff [str_simps]:
  "strip_suffix_char c s = Some r \<longleftrightarrow> s = r @ [c]"
  by (cases s rule: rev_cases) (auto simp: strip_suffix_char_def)

fun join :: "string \<Rightarrow> string list \<Rightarrow> string" where
  "join sep [] = []"
| "join sep [x] = x"
| "join sep (x # y # zs) = x @ sep @ join sep (y # zs)"

subsection \<open>White space\<close>

text \<open>
  The UTF-8 encodings of the code points with the Unicode property \<^verbatim>\<open>White_Space\<close>, which
  is what \<^verbatim>\<open>char::is_whitespace\<close> tests. UTF-8 is self-synchronising, so on valid UTF-8 one of
  these byte sequences occurs at a position exactly when that character starts there.
\<close>

definition ws_chars :: "string list" where
  "ws_chars =
     [[CHR 0x09], [CHR 0x0A], [CHR 0x0B], [CHR 0x0C], [CHR 0x0D], [CHR 0x20],
      [CHR 0xC2, CHR 0x85], [CHR 0xC2, CHR 0xA0], [CHR 0xE1, CHR 0x9A, CHR 0x80],
      [CHR 0xE2, CHR 0x80, CHR 0x80], [CHR 0xE2, CHR 0x80, CHR 0x81],
      [CHR 0xE2, CHR 0x80, CHR 0x82], [CHR 0xE2, CHR 0x80, CHR 0x83],
      [CHR 0xE2, CHR 0x80, CHR 0x84], [CHR 0xE2, CHR 0x80, CHR 0x85],
      [CHR 0xE2, CHR 0x80, CHR 0x86], [CHR 0xE2, CHR 0x80, CHR 0x87],
      [CHR 0xE2, CHR 0x80, CHR 0x88], [CHR 0xE2, CHR 0x80, CHR 0x89],
      [CHR 0xE2, CHR 0x80, CHR 0x8A], [CHR 0xE2, CHR 0x80, CHR 0xA8],
      [CHR 0xE2, CHR 0x80, CHR 0xA9], [CHR 0xE2, CHR 0x80, CHR 0xAF],
      [CHR 0xE2, CHR 0x81, CHR 0x9F], [CHR 0xE3, CHR 0x80, CHR 0x80]]"

text \<open>The rest of the string after the first pattern of \<open>ws\<close> that it starts with.\<close>

fun skip_one :: "string list \<Rightarrow> string \<Rightarrow> string option" where
  "skip_one [] s = None"
| "skip_one (w # ws) s = (case strip_prefix w s of Some r \<Rightarrow> Some r | None \<Rightarrow> skip_one ws s)"

lemma skip_one_SomeD: "skip_one ws s = Some r \<Longrightarrow> \<exists>w \<in> set ws. s = w @ r"
  by (induction ws) (auto simp: strip_prefix_Some_iff split: option.splits)

lemma skip_one_None_iff: "skip_one ws s = None \<longleftrightarrow> (\<forall>w \<in> set ws. \<forall>r. s \<noteq> w @ r)"
  by (induction ws) (auto simp: strip_prefix_Some_iff strip_prefix_None_iff split: option.splits)

lemma skip_one_shorter:
  assumes "skip_one ws s = Some r" and "[] \<notin> set ws"
  shows "length r < length s"
  using skip_one_SomeD [OF assms(1)] assms(2) by force

text \<open>Drop leading patterns; the fuel is the length of the string, one unit per dropped pattern.\<close>

fun skip_many :: "nat \<Rightarrow> string list \<Rightarrow> string \<Rightarrow> string" where
  "skip_many 0 ws s = s"
| "skip_many (Suc n) ws s = (case skip_one ws s of None \<Rightarrow> s | Some r \<Rightarrow> skip_many n ws r)"

lemma skip_many_enough:
  "[] \<notin> set ws \<Longrightarrow> length s \<le> n \<Longrightarrow> skip_one ws (skip_many n ws s) = None"
proof (induction n arbitrary: s)
  case 0
  then show ?case by (auto simp: skip_one_None_iff)
next
  case (Suc n)
  then show ?case
    by (auto split: option.split dest: skip_one_shorter)
qed

definition trim_start :: "string \<Rightarrow> string" where
  "trim_start s = skip_many (length s) ws_chars s"

definition trim_end :: "string \<Rightarrow> string" where
  "trim_end s = rev (skip_many (length s) (map rev ws_chars) (rev s))"

definition trim :: "string \<Rightarrow> string" where
  "trim s = trim_end (trim_start s)"

text \<open>\<open>cur\<close> holds the bytes of the token being read, in reverse.\<close>

function split_ws :: "string \<Rightarrow> string \<Rightarrow> string list" where
  "split_ws cur [] = (if cur = [] then [] else [rev cur])"
| "split_ws cur (c # cs) =
     (case skip_one ws_chars (c # cs) of
        None \<Rightarrow> split_ws (c # cur) cs
      | Some r \<Rightarrow> (if cur = [] then [] else [rev cur]) @ split_ws [] r)"
  by pat_completeness auto
termination
  by (relation "measure (\<lambda>(cur, s). length s)")
    (auto dest!: skip_one_shorter simp: ws_chars_def simp del: skip_one.simps)

definition split_whitespace :: "string \<Rightarrow> string list" where
  "split_whitespace s = split_ws [] s"

text \<open>A string in which no white-space character starts at any position.\<close>

definition ws_free :: "string \<Rightarrow> bool" where
  "ws_free t = (\<forall>i < length t. skip_one ws_chars (drop i t) = None)"

lemma ws_free_Cons: "ws_free (c # t) \<longleftrightarrow> skip_one ws_chars (c # t) = None \<and> ws_free t"
  unfolding ws_free_def by (auto simp: less_Suc_eq_0_disj simp del: skip_one.simps)

lemma ws_chars_space: "w \<in> set ws_chars \<Longrightarrow> CHR 0x20 \<in> set w \<Longrightarrow> w = [CHR 0x20]"
  by (auto simp: ws_chars_def)

lemma skip_one_append_None: "skip_one ws (u @ v) = None \<Longrightarrow> skip_one ws u = None"
  by (auto simp: skip_one_None_iff)

lemma skip_one_before_space:
  assumes "skip_one ws_chars u = None" and "u \<noteq> []"
  shows "skip_one ws_chars (u @ CHR 0x20 # v) = None"
  unfolding skip_one_None_iff
proof (intro ballI allI notI)
  fix w r
  assume w: "w \<in> set ws_chars" and eq: "u @ CHR 0x20 # v = w @ r"
  from assms(1) w have no: "\<forall>r. u \<noteq> w @ r" by (simp add: skip_one_None_iff)
  from eq obtain us where "u = w @ us \<or> (w = u @ us \<and> CHR 0x20 # v = us @ r)"
    by (auto simp: append_eq_append_conv2)
  with no have us: "w = u @ us" "CHR 0x20 # v = us @ r" by auto
  with no have "us \<noteq> []" by auto
  with us(2) have "CHR 0x20 \<in> set us" by (cases us) auto
  with us(1) w have "w = [CHR 0x20]" by (intro ws_chars_space) auto
  with us(1) \<open>us \<noteq> []\<close> assms(2) show False by (cases u; cases us) auto
qed

lemma split_ws_token:
  "ws_free t \<Longrightarrow> cur \<noteq> [] \<or> t \<noteq> [] \<Longrightarrow>
     split_ws cur (t @ CHR 0x20 # rest) = (rev cur @ t) # split_ws [] rest"
proof (induction t arbitrary: cur)
  case Nil
  have "skip_one ws_chars (CHR 0x20 # rest) = Some rest" by (simp add: ws_chars_def)
  with Nil show ?case by (simp del: skip_one.simps)
next
  case (Cons c t)
  from Cons.prems(1) have "skip_one ws_chars ((c # t) @ CHR 0x20 # rest) = None"
    by (intro skip_one_before_space) (simp_all add: ws_free_Cons del: skip_one.simps)
  with Cons show ?case by (simp add: ws_free_Cons del: skip_one.simps)
qed

lemma split_ws_last:
  "ws_free t \<Longrightarrow> cur \<noteq> [] \<or> t \<noteq> [] \<Longrightarrow> split_ws cur t = [rev cur @ t]"
  by (induction t arbitrary: cur) (auto simp: ws_free_Cons simp del: skip_one.simps)

lemma split_whitespace_join:
  "(\<And>t. t \<in> set ts \<Longrightarrow> t \<noteq> [] \<and> ws_free t) \<Longrightarrow> split_whitespace (join '' '' ts) = ts"
proof (induction "'' ''" ts rule: join.induct)
  case 1
  then show ?case by (simp add: split_whitespace_def)
next
  case (2 x)
  then show ?case by (simp add: split_whitespace_def split_ws_last)
next
  case (3 x y zs)
  then show ?case by (simp add: split_whitespace_def split_ws_token)
qed

lemma split_ws_tokens:
  assumes "\<forall>i < length cur. skip_one ws_chars (drop i (rev cur) @ s) = None"
  shows "t \<in> set (split_ws cur s) \<Longrightarrow> t \<noteq> [] \<and> ws_free t"
  using assms
proof (induction cur s rule: split_ws.induct)
  case (1 cur)
  then show ?case by (auto simp: ws_free_def simp del: skip_one.simps split: if_splits)
next
  case (2 cur c cs)
  show ?case
  proof (cases "skip_one ws_chars (c # cs)")
    case None
    have "\<forall>i < length (c # cur). skip_one ws_chars (drop i (rev (c # cur)) @ cs) = None"
    proof (intro allI impI)
      fix i
      assume "i < length (c # cur)"
      then consider "i < length cur" | "i = length cur" by force
      then show "skip_one ws_chars (drop i (rev (c # cur)) @ cs) = None"
        using "2.prems"(2) None by cases (auto simp del: skip_one.simps)
    qed
    with 2 None show ?thesis by (simp del: skip_one.simps)
  next
    case (Some r)
    have "ws_free (rev cur)"
      using "2.prems"(2) by (auto simp: ws_free_def dest: skip_one_append_None simp del: skip_one.simps)
    with 2 Some show ?thesis by (auto simp del: skip_one.simps split: if_splits)
  qed
qed

lemma split_whitespace_tokens: "t \<in> set (split_whitespace s) \<Longrightarrow> t \<noteq> [] \<and> ws_free t"
  unfolding split_whitespace_def by (rule split_ws_tokens) simp_all

section \<open>Ordered sets\<close>

text \<open>
  What a client of \<^verbatim>\<open>BTreeSet\<close> relies on: insertion adds one member, and iteration yields
  the members in strictly ascending order. The iteration order is then a function of the members
  alone, whatever the order of the insertions.
\<close>

locale ordered_set =
  fixes empty_set :: "'s"
    and insert_elem :: "'a::linorder \<Rightarrow> 's \<Rightarrow> 's"
    and elems :: "'s \<Rightarrow> 'a list"
    and invar :: "'s \<Rightarrow> bool"
  assumes invar_empty: "invar empty_set"
    and elems_empty: "elems empty_set = []"
    and invar_insert: "invar s \<Longrightarrow> invar (insert_elem x s)"
    and set_insert: "invar s \<Longrightarrow> set (elems (insert_elem x s)) = insert x (set (elems s))"
    and ascending: "invar s \<Longrightarrow> sorted_wrt (<) (elems s)"
begin

lemma invar_extend: "invar s \<Longrightarrow> invar (fold insert_elem xs s)"
  by (induction xs arbitrary: s) (simp_all add: invar_insert)

lemma set_extend: "invar s \<Longrightarrow> set (elems (fold insert_elem xs s)) = set xs \<union> set (elems s)"
  by (induction xs arbitrary: s) (auto simp: invar_insert set_insert)

lemma canonical:
  "invar s \<Longrightarrow> invar t \<Longrightarrow> set (elems s) = set (elems t) \<Longrightarrow> elems s = elems t"
  by (intro strict_sorted_equal) (simp_all add: ascending)

lemma extend_canonical:
  assumes "set xs = set ys"
  shows "elems (fold insert_elem xs empty_set) = elems (fold insert_elem ys empty_set)"
  using assms by (intro canonical) (simp_all add: invar_extend invar_empty set_extend)

end

text \<open>\<^verbatim>\<open>BTreeSet\<close> modelled by the list of its members in iteration order.\<close>

fun btree_insert :: "'a::linorder \<Rightarrow> 'a list \<Rightarrow> 'a list" where
  "btree_insert x [] = [x]"
| "btree_insert x (y # ys) =
     (if x < y then x # y # ys else if x = y then y # ys else y # btree_insert x ys)"

lemma set_btree_insert: "set (btree_insert x s) = insert x (set s)"
  by (induction s) auto

lemma sorted_btree_insert: "sorted_wrt (<) s \<Longrightarrow> sorted_wrt (<) (btree_insert x s)"
  by (induction s) (auto simp: set_btree_insert)

interpretation btree: ordered_set "[]" btree_insert "\<lambda>s. s" "sorted_wrt (<)"
  by unfold_locales (simp_all add: set_btree_insert sorted_btree_insert)

end
