(* ===== verification/Iga_Classify.thy ===== *)
theory Iga_Classify
  imports Iga_Prelude "HOL-Library.Multiset"
begin

text \<open>
  GraphQL operation classification (\<^verbatim>\<open>src/src/classify.rs\<close>).

  The JSON parser and the GraphQL parser are parameters: \<open>from_slice\<close> turns the body into the
  \<^verbatim>\<open>RawBody\<close> the source declares, \<open>parse_query\<close> turns a query text into a document. The
  document is what the source reads of \<^verbatim>\<open>async_graphql_parser\<close>'s types: the pairs that
  \<^verbatim>\<open>doc.operations.iter()\<close> yields, in whatever order the hash map yields them, and the
  fragment map as an association list that is only looked up by name. Source positions are dropped.
\<close>

section \<open>Data\<close>

datatype scope = ScopeRead | ScopeWrite

datatype operation_type = OtQuery | OtMutation | OtSubscription

datatype operation_kind = Query | Mutation | Subscription

text \<open>\<^verbatim>\<open>Write\<close> strictly outranks \<^verbatim>\<open>Read\<close>: the derived order of the enum.\<close>

definition scope_le :: "scope \<Rightarrow> scope \<Rightarrow> bool" where
  "scope_le a b = (a = ScopeRead \<or> b = ScopeWrite)"

instantiation scope :: linorder
begin

definition less_eq_scope :: "scope \<Rightarrow> scope \<Rightarrow> bool" where
  "less_eq_scope = scope_le"

definition less_scope :: "scope \<Rightarrow> scope \<Rightarrow> bool" where
  "less_scope a b = (scope_le a b \<and> \<not> scope_le b a)"

instance
proof
  fix x y z :: scope
  show "(x < y) = (x \<le> y \<and> \<not> y \<le> x)"
    by (cases x; cases y) (simp_all add: less_eq_scope_def scope_le_def less_scope_def)
  show "x \<le> x" by (cases x) (simp_all add: less_eq_scope_def scope_le_def)
  show "x \<le> y \<Longrightarrow> y \<le> z \<Longrightarrow> x \<le> z"
    by (cases x; cases y; cases z) (simp_all add: less_eq_scope_def scope_le_def)
  show "x \<le> y \<Longrightarrow> y \<le> x \<Longrightarrow> x = y"
    by (cases x; cases y) (simp_all add: less_eq_scope_def scope_le_def)
  show "x \<le> y \<or> y \<le> x" by (cases x; cases y) (simp_all add: less_eq_scope_def scope_le_def)
qed

end

fun operation_kind_from :: "operation_type \<Rightarrow> operation_kind" where
  "operation_kind_from OtQuery = Query"
| "operation_kind_from OtMutation = Mutation"
| "operation_kind_from OtSubscription = Subscription"

fun kind_scope :: "operation_kind \<Rightarrow> scope" where
  "kind_scope Mutation = ScopeWrite"
| "kind_scope Query = ScopeRead"
| "kind_scope Subscription = ScopeRead"

record operation_info =
  oi_name :: "string option"
  oi_kind :: operation_kind
  oi_top_level_fields :: "string list"

definition op_scope :: "operation_info \<Rightarrow> scope" where
  "op_scope op = kind_scope (oi_kind op)"

record classification =
  cl_operations :: "operation_info list"
  cl_scope :: scope

datatype classify_error =
    InvalidJson string
  | Empty
  | GraphqlParse string

fun classify_error_display :: "classify_error \<Rightarrow> string" where
  "classify_error_display (InvalidJson e) = ''request body is not valid JSON: '' @ e"
| "classify_error_display Empty = ''request contains no GraphQL operation''"
| "classify_error_display (GraphqlParse e) = ''GraphQL document failed to parse: '' @ e"

record graphql_request =
  gr_query :: string
  gr_operation_name :: "string option"

datatype raw_body = Single graphql_request | Batch "graphql_request list"

text \<open>
  A field carries its alias, its real name and its own selection set; an inline fragment its type
  condition. Arguments and directives are never read.
\<close>

datatype selection =
    Field "string option" string "selection list"
  | FragmentSpread string
  | InlineFragment "string option" "selection list"

type_synonym fragments = "(string \<times> selection list) list"

record operation_definition =
  od_ty :: operation_type
  od_selection_set :: "selection list"

record executable_document =
  ed_operations :: "(string option \<times> operation_definition) list"
  ed_fragments :: fragments

section \<open>Root fields of an operation\<close>

definition push_new :: "string \<Rightarrow> string list \<Rightarrow> string list" where
  "push_new name out = (if name \<in> set out then out else out @ [name])"

text \<open>
  The output vector and the visited set are the two mutable arguments of the source, threaded
  through the traversal. The recursion is nested: what remains of a selection set is traversed with
  the visited set that the fragment left behind, so termination needs to know that this set only
  grows.
\<close>

function collect_top_fields ::
  "selection list \<Rightarrow> fragments \<Rightarrow> string list \<Rightarrow> string set \<Rightarrow> string list \<times> string set" where
  "collect_top_fields [] frags out visited = (out, visited)"
| "collect_top_fields (Field alias name sub # items) frags out visited =
     collect_top_fields items frags (push_new name out) visited"
| "collect_top_fields (FragmentSpread name # items) frags out visited =
     (if name \<in> visited then collect_top_fields items frags out visited
      else
        (case map_of frags name of
           None \<Rightarrow> collect_top_fields items frags out (insert name visited)
         | Some frag \<Rightarrow>
             (case collect_top_fields frag frags out (insert name visited) of
                (out', visited') \<Rightarrow> collect_top_fields items frags out' visited')))"
| "collect_top_fields (InlineFragment cond sub # items) frags out visited =
     (case collect_top_fields sub frags out visited of
        (out', visited') \<Rightarrow> collect_top_fields items frags out' visited')"
  by pat_completeness auto

lemma collect_visited_grows:
  "collect_top_fields_dom (items, frags, out, visited) \<Longrightarrow>
     visited \<subseteq> snd (collect_top_fields items frags out visited)"
  by (induction items frags out visited rule: collect_top_fields.pinduct)
    (fastforce simp: collect_top_fields.psimps split: option.splits prod.splits)+

definition unvisited :: "fragments \<Rightarrow> string set \<Rightarrow> nat" where
  "unvisited frags visited = card (fst ` set frags - visited)"

lemma unvisited_mono: "visited \<subseteq> visited' \<Longrightarrow> unvisited frags visited' \<le> unvisited frags visited"
  unfolding unvisited_def by (intro card_mono) auto

lemma unvisited_insert:
  assumes "map_of frags name = Some frag" and "name \<notin> visited"
  shows "unvisited frags (insert name visited) < unvisited frags visited"
proof -
  from assms(1) have "name \<in> fst ` set frags" by (metis domI dom_map_of_conv_image_fst)
  with assms(2) show ?thesis
    unfolding unvisited_def by (intro psubset_card_mono) auto
qed

termination collect_top_fields
proof (relation "measures [\<lambda>(items, frags, out, visited). unvisited frags visited,
                           \<lambda>(items, frags, out, visited). size_list size items]", goal_cases)
  case 1
  show ?case by simp
next
  case (2 al name sub items frags out visited)
  show ?case by simp
next
  case (3 name items frags out visited)
  show ?case by simp
next
  case (4 name items frags out visited)
  then show ?case
    using unvisited_mono [of visited "insert name visited" frags] by (auto simp: le_less)
next
  case (5 name items frags out visited frag)
  then show ?case by (simp add: unvisited_insert)
next
  case (6 name items frags out visited frag out' visited')
  then have "insert name visited \<subseteq> visited'"
    using collect_visited_grows [of frag frags out "insert name visited"] by (metis snd_conv)
  then have "unvisited frags visited' < unvisited frags visited"
    using 6 unvisited_mono [of "insert name visited" visited' frags] unvisited_insert
    by (meson le_less_trans)
  then show ?case by simp
next
  case (7 cond sub items frags out visited)
  show ?case by simp
next
  case (8 cond sub items frags out visited out' visited')
  then have "visited \<subseteq> visited'"
    using collect_visited_grows [of sub frags out visited] by (metis snd_conv)
  then have "unvisited frags visited' \<le> unvisited frags visited" by (rule unvisited_mono)
  then show ?case by (auto simp: le_less)
qed

section \<open>Classification\<close>

definition matching_operations ::
  "string option \<Rightarrow> (string option \<times> operation_definition) list \<Rightarrow>
   (string option \<times> operation_definition) list" where
  "matching_operations selected ops =
     filter (\<lambda>(op_name, op).
       (case selected of Some sel \<Rightarrow> op_name = Some sel | None \<Rightarrow> True)) ops"

definition operation_info_of ::
  "fragments \<Rightarrow> string option \<times> operation_definition \<Rightarrow> operation_info" where
  "operation_info_of frags nop =
     (case nop of (op_name, op) \<Rightarrow>
        \<lparr>oi_name = op_name,
         oi_kind = operation_kind_from (od_ty op),
         oi_top_level_fields = fst (collect_top_fields (od_selection_set op) frags [] {})\<rparr>)"

text \<open>One turn of the loop over the requests: the operations that could execute.\<close>

definition operations_to_classify ::
  "string option \<Rightarrow> executable_document \<Rightarrow> (string option \<times> operation_definition) list" where
  "operations_to_classify selected doc =
     (let matched = matching_operations selected (ed_operations doc)
      in if matched = [] then ed_operations doc else matched)"

definition classify_document ::
  "graphql_request \<Rightarrow> executable_document \<Rightarrow> (operation_info list, classify_error) result" where
  "classify_document req doc =
     (let to_classify = operations_to_classify (gr_operation_name req) doc
      in if to_classify = [] then Err Empty
         else Ok (map (operation_info_of (ed_fragments doc)) to_classify))"

fun classify_requests ::
  "(string \<Rightarrow> (executable_document, string) result) \<Rightarrow> graphql_request list \<Rightarrow>
   operation_info list \<Rightarrow> (operation_info list, classify_error) result" where
  "classify_requests parse_query [] operations = Ok operations"
| "classify_requests parse_query (req # reqs) operations =
     and_then (map_err GraphqlParse (parse_query (gr_query req)))
       (\<lambda>doc. and_then (classify_document req doc)
          (\<lambda>ops. classify_requests parse_query reqs (operations @ ops)))"

fun requests_of :: "raw_body \<Rightarrow> graphql_request list" where
  "requests_of (Single r) = [r]"
| "requests_of (Batch v) = v"

text \<open>\<^verbatim>\<open>Iterator::max\<close>: no value on an empty iterator.\<close>

fun max_scope :: "scope list \<Rightarrow> scope option" where
  "max_scope [] = None"
| "max_scope (x # xs) = Some (fold max xs x)"

definition classify ::
  "(bytes \<Rightarrow> (raw_body, string) result) \<Rightarrow> (string \<Rightarrow> (executable_document, string) result) \<Rightarrow>
   bytes \<Rightarrow> (classification, classify_error) result" where
  "classify from_slice parse_query body =
     and_then (map_err InvalidJson (from_slice body))
       (\<lambda>raw. let requests = requests_of raw in
          if requests = [] then Err Empty
          else and_then (classify_requests parse_query requests [])
            (\<lambda>operations.
               if operations = [] then Err Empty
               else Ok \<lparr>cl_operations = operations,
                        cl_scope = (case max_scope (map op_scope operations) of
                                      Some s \<Rightarrow> s | None \<Rightarrow> ScopeRead)\<rparr>))"

section \<open>What the root fields are\<close>

text \<open>
  The fields a GraphQL executor would select at the root: a field of the set itself, or of an
  inline fragment in it, or of a fragment spread in it, to any depth. Aliases and the fields of
  nested selection sets play no part.
\<close>

inductive root_field :: "fragments \<Rightarrow> selection list \<Rightarrow> string \<Rightarrow> bool"
  for frags :: fragments where
  here: "Field al f sub \<in> set items \<Longrightarrow> root_field frags items f"
| inline: "InlineFragment cond sub \<in> set items \<Longrightarrow> root_field frags sub f \<Longrightarrow>
     root_field frags items f"
| spread: "FragmentSpread n \<in> set items \<Longrightarrow> map_of frags n = Some frag \<Longrightarrow>
     root_field frags frag f \<Longrightarrow> root_field frags items f"

text \<open>The fields and the spread names that a set shows without following a spread.\<close>

fun direct_fields :: "selection list \<Rightarrow> string set" where
  "direct_fields [] = {}"
| "direct_fields (Field al name sub # items) = insert name (direct_fields items)"
| "direct_fields (FragmentSpread name # items) = direct_fields items"
| "direct_fields (InlineFragment cond sub # items) = direct_fields sub \<union> direct_fields items"

fun direct_spreads :: "selection list \<Rightarrow> string set" where
  "direct_spreads [] = {}"
| "direct_spreads (Field al name sub # items) = direct_spreads items"
| "direct_spreads (FragmentSpread name # items) = insert name (direct_spreads items)"
| "direct_spreads (InlineFragment cond sub # items) = direct_spreads sub \<union> direct_spreads items"

lemma set_push_new [simp]: "set (push_new name out) = insert name (set out)"
  by (auto simp: push_new_def)

lemma distinct_push_new: "distinct out \<Longrightarrow> distinct (push_new name out)"
  by (simp add: push_new_def)

lemma root_field_mono: "root_field frags items f \<Longrightarrow> set items \<subseteq> set items' \<Longrightarrow> root_field frags items' f"
  by (induction rule: root_field.induct) (blast intro: root_field.intros)+

lemma root_field_Cons: "root_field frags items f \<Longrightarrow> root_field frags (x # items) f"
  by (erule root_field_mono) auto

lemma collect_sound:
  "f \<in> set (fst (collect_top_fields items frags out visited)) \<Longrightarrow>
     f \<in> set out \<or> root_field frags items f"
proof (induction items frags out visited rule: collect_top_fields.induct)
  case (1 frags out visited)
  then show ?case by simp
next
  case (2 al name sub items frags out visited)
  then show ?case by (auto intro: root_field_Cons root_field.here)
next
  case (3 name items frags out visited)
  show ?case
  proof (cases "name \<in> visited \<or> map_of frags name = None")
    case True
    with 3 show ?thesis by (auto split: if_splits intro: root_field_Cons)
  next
    case False
    then obtain frag where new: "name \<notin> visited" and frag: "map_of frags name = Some frag" by auto
    obtain o1 v1 where c1: "collect_top_fields frag frags out (insert name visited) = (o1, v1)"
      by fastforce
    from "3.prems" new frag c1 have "f \<in> set (fst (collect_top_fields items frags o1 v1))" by simp
    then have "f \<in> set o1 \<or> root_field frags items f"
      using "3.IH"(4) [OF new frag] c1 by simp
    moreover have "f \<in> set o1 \<Longrightarrow> f \<in> set out \<or> root_field frags frag f"
      using "3.IH"(3) [OF new frag] c1 by simp
    ultimately show ?thesis
      by (metis frag list.set_intros(1) root_field.spread root_field_Cons)
  qed
next
  case (4 cond sub items frags out visited)
  then show ?case
    by (auto split: prod.splits intro: root_field_Cons root_field.inline [where cond = cond and sub = sub])
qed

lemma collect_distinct:
  "distinct out \<Longrightarrow> distinct (fst (collect_top_fields items frags out visited))"
  by (induction items frags out visited rule: collect_top_fields.induct)
    (auto simp: distinct_push_new split: option.splits prod.splits)

text \<open>
  What a traversal leaves behind. Every fragment entered during it is closed: its own fields are in
  the output and its own spreads have been visited. Fragments that were already being expanded when
  the traversal started are left to their own traversal.
\<close>

definition closed_after ::
  "fragments \<Rightarrow> string set \<Rightarrow> string list \<Rightarrow> string set \<Rightarrow> bool" where
  "closed_after frags visited out' visited' \<longleftrightarrow>
     (\<forall>n frag. n \<in> visited' - visited \<longrightarrow> map_of frags n = Some frag \<longrightarrow>
        direct_fields frag \<subseteq> set out' \<and> direct_spreads frag \<subseteq> visited')"

lemma closed_after_trans:
  "closed_after frags v1 o2 v2 \<Longrightarrow> closed_after frags v2 o3 v3 \<Longrightarrow> set o2 \<subseteq> set o3 \<Longrightarrow> v2 \<subseteq> v3 \<Longrightarrow>
     closed_after frags v1 o3 v3"
  unfolding closed_after_def by blast

lemma closed_after_insert:
  assumes "closed_after frags (insert name v1) o2 v2"
    and "\<And>frag. map_of frags name = Some frag \<Longrightarrow> direct_fields frag \<subseteq> set o2 \<and> direct_spreads frag \<subseteq> v2"
  shows "closed_after frags v1 o2 v2"
  unfolding closed_after_def
proof (intro allI impI)
  fix n frag
  assume "n \<in> v2 - v1" and "map_of frags n = Some frag"
  with assms show "direct_fields frag \<subseteq> set o2 \<and> direct_spreads frag \<subseteq> v2"
    unfolding closed_after_def by (cases "n = name") blast+
qed

definition covers ::
  "fragments \<Rightarrow> selection list \<Rightarrow> string list \<Rightarrow> string set \<Rightarrow> string list \<Rightarrow> string set \<Rightarrow> bool" where
  "covers frags items out visited out' visited' \<longleftrightarrow>
     set out \<subseteq> set out' \<and> visited \<subseteq> visited' \<and>
     direct_fields items \<subseteq> set out' \<and> direct_spreads items \<subseteq> visited' \<and>
     closed_after frags visited out' visited'"

lemma collect_covers:
  "covers frags items out visited
     (fst (collect_top_fields items frags out visited))
     (snd (collect_top_fields items frags out visited))"
proof (induction items frags out visited rule: collect_top_fields.induct)
  case (1 frags out visited)
  then show ?case by (simp add: covers_def closed_after_def)
next
  case (2 al name sub items frags out visited)
  then show ?case by (auto simp: covers_def)
next
  case (3 name items frags out visited)
  show ?case
  proof (cases "name \<in> visited")
    case True
    with "3.IH"(1) show ?thesis by (auto simp: covers_def)
  next
    case new: False
    show ?thesis
    proof (cases "map_of frags name")
      case None
      let ?r = "collect_top_fields items frags out (insert name visited)"
      have IH: "covers frags items out (insert name visited) (fst ?r) (snd ?r)"
        by (rule "3.IH"(2) [OF new None])
      have "closed_after frags visited (fst ?r) (snd ?r)"
        using IH None by (auto simp: covers_def intro: closed_after_insert)
      with IH new None show ?thesis by (simp add: covers_def)
    next
      case (Some frag)
      obtain o1 v1 where c1: "collect_top_fields frag frags out (insert name visited) = (o1, v1)"
        by fastforce
      obtain o2 v2 where c2: "collect_top_fields items frags o1 v1 = (o2, v2)" by fastforce
      have 1: "covers frags frag out (insert name visited) o1 v1"
        using "3.IH"(3) [OF new Some] c1 by simp
      have 2: "covers frags items o1 v1 o2 v2"
        using "3.IH"(4) [OF new Some] c1 c2 by simp
      have "closed_after frags visited o1 v1"
      proof (rule closed_after_insert)
        show "closed_after frags (insert name visited) o1 v1" using 1 by (simp add: covers_def)
      qed (use 1 Some in \<open>auto simp: covers_def\<close>)
      then have "closed_after frags visited o2 v2"
        using 2 by (auto simp: covers_def intro: closed_after_trans)
      with 1 2 new Some c1 c2 show ?thesis by (auto simp: covers_def)
    qed
  qed
next
  case (4 cond sub items frags out visited)
  obtain o1 v1 where c1: "collect_top_fields sub frags out visited = (o1, v1)" by fastforce
  obtain o2 v2 where c2: "collect_top_fields items frags o1 v1 = (o2, v2)" by fastforce
  have 1: "covers frags sub out visited o1 v1" using 4 c1 by simp
  have 2: "covers frags items o1 v1 o2 v2" using 4 c1 c2 by simp
  from 1 2 have "closed_after frags visited o2 v2"
    by (auto simp: covers_def intro: closed_after_trans)
  with 1 2 c1 c2 show ?case by (auto simp: covers_def)
qed

lemma direct_fields_here: "Field al f sub \<in> set items \<Longrightarrow> f \<in> direct_fields items"
  by (induction items rule: direct_fields.induct) auto

lemma direct_spreads_here: "FragmentSpread n \<in> set items \<Longrightarrow> n \<in> direct_spreads items"
  by (induction items rule: direct_spreads.induct) auto

lemma direct_inline:
  assumes "InlineFragment cond sub \<in> set items"
  shows "direct_fields sub \<subseteq> direct_fields items" and "direct_spreads sub \<subseteq> direct_spreads items"
  using assms by (induction items rule: direct_fields.induct) auto

lemma root_field_closed:
  assumes "root_field frags items f"
    and "\<And>n frag. n \<in> V \<Longrightarrow> map_of frags n = Some frag \<Longrightarrow>
           direct_fields frag \<subseteq> O' \<and> direct_spreads frag \<subseteq> V"
    and "direct_fields items \<subseteq> O'" and "direct_spreads items \<subseteq> V"
  shows "f \<in> O'"
  using assms(1,3,4)
proof (induction rule: root_field.induct)
  case (here al f sub items)
  then show ?case by (auto dest: direct_fields_here)
next
  case (inline cond sub items f)
  then show ?case by (meson direct_inline subset_trans)
next
  case (spread n items frag f)
  then have "n \<in> V" by (auto dest: direct_spreads_here)
  with spread assms(2) show ?case by blast
qed

lemma collect_complete:
  assumes "root_field frags items f"
  shows "f \<in> set (fst (collect_top_fields items frags out {}))"
proof -
  obtain o1 v1 where c: "collect_top_fields items frags out {} = (o1, v1)" by fastforce
  have "covers frags items out {} o1 v1"
    using collect_covers [of frags items out "{}"] c by simp
  then have "f \<in> set o1"
    by (intro root_field_closed [OF assms, of v1 "set o1"]) (simp_all add: covers_def closed_after_def)
  with c show ?thesis by simp
qed

section \<open>Properties of classification\<close>

text \<open>
  Which operations of a document could execute under a request: the one that
  \<^verbatim>\<open>operationName\<close> selects, and every operation when nothing is selected or the selected name
  is not in the document.
\<close>

definition could_run ::
  "graphql_request \<Rightarrow> executable_document \<Rightarrow> string option \<times> operation_definition \<Rightarrow> bool" where
  "could_run req doc nop \<longleftrightarrow>
     nop \<in> set (ed_operations doc) \<and>
     (case gr_operation_name req of
        None \<Rightarrow> True
      | Some sel \<Rightarrow> fst nop = Some sel \<or> (\<forall>other \<in> set (ed_operations doc). fst other \<noteq> Some sel))"

lemma operations_to_classify_Nil [simp]:
  "operations_to_classify selected doc = [] \<longleftrightarrow> ed_operations doc = []"
  by (auto simp: operations_to_classify_def matching_operations_def Let_def)

lemma set_operations_to_classify:
  "set (operations_to_classify (gr_operation_name req) doc) = {nop. could_run req doc nop}"
  by (cases "gr_operation_name req")
    (force simp: operations_to_classify_def matching_operations_def could_run_def Let_def
      filter_empty_conv)+

lemma classify_document_Ok_iff:
  "classify_document req doc = Ok ops \<longleftrightarrow>
     ed_operations doc \<noteq> [] \<and>
     ops = map (operation_info_of (ed_fragments doc)) (operations_to_classify (gr_operation_name req) doc)"
  by (auto simp: classify_document_def Let_def)

lemma classify_document_Err_iff:
  "classify_document req doc = Err e \<longleftrightarrow> ed_operations doc = [] \<and> e = Empty"
  by (auto simp: classify_document_def Let_def)

text \<open>The loop over the requests is a traversal that stops at the first failing request.\<close>

definition classify_one ::
  "(string \<Rightarrow> (executable_document, string) result) \<Rightarrow> graphql_request \<Rightarrow>
   (operation_info list, classify_error) result" where
  "classify_one parse_query req =
     and_then (map_err GraphqlParse (parse_query (gr_query req))) (classify_document req)"

lemma classify_one_Ok_iff:
  "classify_one pq req = Ok ops \<longleftrightarrow>
     (\<exists>doc. pq (gr_query req) = Ok doc \<and> ed_operations doc \<noteq> [] \<and>
        ops = map (operation_info_of (ed_fragments doc))
                (operations_to_classify (gr_operation_name req) doc))"
  by (auto simp: classify_one_def result_simps classify_document_Ok_iff)

lemma classify_one_Err_iff:
  "classify_one pq req = Err e \<longleftrightarrow>
     (\<exists>d. pq (gr_query req) = Err d \<and> e = GraphqlParse d) \<or>
     (\<exists>doc. pq (gr_query req) = Ok doc \<and> ed_operations doc = [] \<and> e = Empty)"
  by (auto simp: classify_one_def result_simps classify_document_Err_iff)

lemma classify_one_nonempty: "classify_one pq req = Ok ops \<Longrightarrow> ops \<noteq> []"
  by (auto simp: classify_one_Ok_iff)

lemma classify_requests_eq:
  "classify_requests pq reqs acc =
     map_ok (\<lambda>opss. acc @ concat opss) (map_result (classify_one pq) reqs)"
proof (induction reqs arbitrary: acc)
  case Nil
  then show ?case by simp
next
  case (Cons req reqs)
  have "classify_requests pq (req # reqs) acc =
      and_then (classify_one pq req) (\<lambda>ops. classify_requests pq reqs (acc @ ops))"
    by (cases "pq (gr_query req)") (simp_all add: classify_one_def)
  then show ?case
    by (cases "classify_one pq req"; cases "map_result (classify_one pq) reqs")
      (simp_all add: Cons.IH)
qed

definition max_scope_or_read :: "operation_info list \<Rightarrow> scope" where
  "max_scope_or_read ops = (case max_scope (map op_scope ops) of Some s \<Rightarrow> s | None \<Rightarrow> ScopeRead)"

lemma classify_alt:
  "classify from_slice pq body =
     and_then (map_err InvalidJson (from_slice body))
       (\<lambda>raw. if requests_of raw = [] then Err Empty
         else map_ok (\<lambda>opss. \<lparr>cl_operations = concat opss, cl_scope = max_scope_or_read (concat opss)\<rparr>)
                (map_result (classify_one pq) (requests_of raw)))"
proof (cases "from_slice body")
  case (Inl e)
  then show ?thesis by (simp add: classify_def)
next
  case (Inr raw)
  show ?thesis
  proof (cases "map_result (classify_one pq) (requests_of raw)")
    case (Inl e)
    with Inr show ?thesis by (simp add: classify_def classify_requests_eq)
  next
    case inner: (Inr opss)
    then have "list_all2 (\<lambda>req ops. classify_one pq req = Ok ops) (requests_of raw) opss"
      by (simp add: map_result_Ok_iff)
    then have "requests_of raw \<noteq> [] \<Longrightarrow> concat opss \<noteq> []"
      by (cases "requests_of raw") (auto simp: list_all2_Cons1 dest: classify_one_nonempty)
    with Inr inner show ?thesis
      by (auto simp: classify_def classify_requests_eq max_scope_or_read_def)
  qed
qed

lemma max_scope_or_read_write:
  "max_scope_or_read ops = ScopeWrite \<longleftrightarrow> (\<exists>op \<in> set ops. oi_kind op = Mutation)"
proof -
  have fold_write: "fold max xs x = ScopeWrite \<longleftrightarrow> x = ScopeWrite \<or> ScopeWrite \<in> set xs" for xs x
    by (induction xs arbitrary: x) (auto simp: max_def less_eq_scope_def scope_le_def)
  have kind: "op_scope op = ScopeWrite \<longleftrightarrow> oi_kind op = Mutation" for op
    by (cases "oi_kind op") (simp_all add: op_scope_def)
  show ?thesis
  proof (cases ops)
    case Nil
    then show ?thesis by (simp add: max_scope_or_read_def)
  next
    case (Cons op ops')
    have "ScopeWrite \<in> set (map op_scope ops') \<longleftrightarrow> (\<exists>op \<in> set ops'. oi_kind op = Mutation)"
      by (force simp: kind [symmetric])
    with Cons show ?thesis by (simp add: max_scope_or_read_def fold_write kind)
  qed
qed

text \<open>A successful classification, spelled out.\<close>

lemma classify_Ok_iff:
  "classify from_slice pq body = Ok c \<longleftrightarrow>
     (\<exists>raw opss. from_slice body = Ok raw \<and> requests_of raw \<noteq> [] \<and>
        list_all2 (\<lambda>req ops. classify_one pq req = Ok ops) (requests_of raw) opss \<and>
        c = \<lparr>cl_operations = concat opss, cl_scope = max_scope_or_read (concat opss)\<rparr>)"
  by (auto simp: classify_alt result_simps split: if_splits)

text \<open>
  An operation that the upstream could execute for a body, with the fragments of its document: it
  belongs to some request of the (possibly batched) body and could run under that request.
\<close>

definition executable_op ::
  "(bytes \<Rightarrow> (raw_body, string) result) \<Rightarrow> (string \<Rightarrow> (executable_document, string) result) \<Rightarrow>
   bytes \<Rightarrow> fragments \<Rightarrow> string option \<times> operation_definition \<Rightarrow> bool" where
  "executable_op from_slice parse_query body frags nop \<longleftrightarrow>
     (\<exists>raw req doc. from_slice body = Ok raw \<and> req \<in> set (requests_of raw) \<and>
        parse_query (gr_query req) = Ok doc \<and> could_run req doc nop \<and> frags = ed_fragments doc)"

lemma classify_operations_set:
  assumes "classify from_slice pq body = Ok c"
  shows "oi \<in> set (cl_operations c) \<longleftrightarrow>
    (\<exists>frags nop. executable_op from_slice pq body frags nop \<and> oi = operation_info_of frags nop)"
proof -
  from assms obtain raw opss where raw: "from_slice body = Ok raw"
    and all: "list_all2 (\<lambda>req ops. classify_one pq req = Ok ops) (requests_of raw) opss"
    and c: "cl_operations c = concat opss"
    by (auto simp: classify_Ok_iff)
  have "oi \<in> set (concat opss) \<longleftrightarrow>
      (\<exists>req ops. req \<in> set (requests_of raw) \<and> classify_one pq req = Ok ops \<and> oi \<in> set ops)"
    using all by (induction rule: list_all2_induct) auto
  also have "\<dots> \<longleftrightarrow> (\<exists>frags nop. executable_op from_slice pq body frags nop \<and> oi = operation_info_of frags nop)"
    (is "?L \<longleftrightarrow> ?R")
  proof
    assume ?L
    then show ?R
      using raw by (fastforce simp: classify_one_Ok_iff executable_op_def set_operations_to_classify)
  next
    assume ?R
    then obtain req doc nop where req: "req \<in> set (requests_of raw)"
      and doc: "pq (gr_query req) = Ok doc" and run: "could_run req doc nop"
      and oi: "oi = operation_info_of (ed_fragments doc) nop"
      using raw by (auto simp: executable_op_def)
    from run have "ed_operations doc \<noteq> []" by (auto simp: could_run_def)
    with req doc run oi show ?L
      by (auto simp: classify_one_Ok_iff set_operations_to_classify)
  qed
  finally show ?thesis by (simp add: c)
qed

lemma classify_scope:
  "classify from_slice pq body = Ok c \<Longrightarrow> cl_scope c = max_scope_or_read (cl_operations c)"
  by (auto simp: classify_Ok_iff)

lemma collect_iff: "f \<in> set (fst (collect_top_fields items frags [] {})) \<longleftrightarrow> root_field frags items f"
  by (auto dest: collect_sound intro: collect_complete)

lemma operation_info_of_kind:
  "oi_kind (operation_info_of frags nop) = Mutation \<longleftrightarrow> od_ty (snd nop) = OtMutation"
  by (cases nop; cases "od_ty (snd nop)") (simp_all add: operation_info_of_def)

lemma set_top_level_fields:
  "set (oi_top_level_fields (operation_info_of frags nop)) =
     {f. root_field frags (od_selection_set (snd nop)) f}"
  by (cases nop) (auto simp: operation_info_of_def dest: collect_sound intro: collect_complete)

definition describes ::
  "operation_info \<Rightarrow> fragments \<Rightarrow> string option \<times> operation_definition \<Rightarrow> bool" where
  "describes oi frags nop \<longleftrightarrow>
     oi_name oi = fst nop \<and>
     oi_kind oi = operation_kind_from (od_ty (snd nop)) \<and>
     set (oi_top_level_fields oi) = {f. root_field frags (od_selection_set (snd nop)) f}"

lemma describes_operation_info_of: "describes (operation_info_of frags nop) frags nop"
  using set_top_level_fields [of frags nop]
  by (cases nop) (simp add: describes_def operation_info_of_def)

text \<open>
  The documents of two parses that differ in nothing but the iteration order of the hash maps.
\<close>

definition doc_equiv :: "executable_document \<Rightarrow> executable_document \<Rightarrow> bool" where
  "doc_equiv d d' \<longleftrightarrow>
     mset (ed_operations d) = mset (ed_operations d') \<and>
     map_of (ed_fragments d) = map_of (ed_fragments d')"

definition classification_equiv :: "classification \<Rightarrow> classification \<Rightarrow> bool" where
  "classification_equiv c c' \<longleftrightarrow>
     mset (cl_operations c) = mset (cl_operations c') \<and> cl_scope c = cl_scope c'"

lemma collect_fragments_cong:
  "map_of frags = map_of frags' \<Longrightarrow>
     collect_top_fields items frags out visited = collect_top_fields items frags' out visited"
  by (induction items frags out visited rule: collect_top_fields.induct)
    (auto split: option.splits prod.splits)

lemma operation_info_of_cong:
  "map_of frags = map_of frags' \<Longrightarrow> operation_info_of frags = operation_info_of frags'"
  by (rule ext) (simp add: operation_info_of_def split: prod.split, metis collect_fragments_cong)

lemma mset_operations_to_classify:
  assumes "mset (ed_operations d) = mset (ed_operations d')"
  shows "mset (operations_to_classify sel d) = mset (operations_to_classify sel d')"
proof -
  have "mset (matching_operations sel (ed_operations d)) = mset (matching_operations sel (ed_operations d'))"
    using assms by (simp add: matching_operations_def mset_filter)
  moreover from this have "matching_operations sel (ed_operations d) = [] \<longleftrightarrow>
      matching_operations sel (ed_operations d') = []"
    by (metis mset_zero_iff)
  ultimately show ?thesis using assms by (simp add: operations_to_classify_def Let_def)
qed

lemma classify_one_equiv:
  assumes "rel_sum (=) doc_equiv (pq (gr_query req)) (pq' (gr_query req))"
  shows "rel_sum (=) (\<lambda>ops ops'. mset ops = mset ops') (classify_one pq req) (classify_one pq' req)"
  using assms
proof (cases rule: rel_sum.cases)
  case (1 e e')
  then show ?thesis by (simp add: classify_one_def)
next
  case (2 d d')
  then have "mset (ed_operations d) = mset (ed_operations d')"
    and frags: "map_of (ed_fragments d) = map_of (ed_fragments d')"
    by (simp_all add: doc_equiv_def)
  moreover from frags have "operation_info_of (ed_fragments d) = operation_info_of (ed_fragments d')"
    by (rule operation_info_of_cong)
  ultimately have eqs: "mset (ed_operations d) = mset (ed_operations d')"
    "operation_info_of (ed_fragments d) = operation_info_of (ed_fragments d')" by blast+
  then have "ed_operations d = [] \<longleftrightarrow> ed_operations d' = []" by (metis mset_zero_iff)
  with 2 eqs mset_operations_to_classify [OF eqs(1), of "gr_operation_name req"] show ?thesis
    by (simp add: classify_one_def classify_document_def Let_def)
qed

lemma map_result_rel:
  "(\<And>x. x \<in> set xs \<Longrightarrow> rel_sum (=) R (f x) (g x)) \<Longrightarrow>
     rel_sum (=) (list_all2 R) (map_result f xs) (map_result g xs)"
proof (induction xs)
  case Nil
  then show ?case by simp
next
  case (Cons x xs)
  from Cons.prems have "rel_sum (=) R (f x) (g x)" by simp
  moreover from Cons have "rel_sum (=) (list_all2 R) (map_result f xs) (map_result g xs)" by simp
  ultimately show ?case by (auto elim!: rel_sum.cases)
qed

lemma mset_concat_rel: "list_all2 (\<lambda>xs ys. mset xs = mset ys) xss yss \<Longrightarrow> mset (concat xss) = mset (concat yss)"
  by (induction rule: list_all2_induct) simp_all

lemma max_scope_or_read_mset: "mset ops = mset ops' \<Longrightarrow> max_scope_or_read ops = max_scope_or_read ops'"
  by (metis (full_types) max_scope_or_read_write mset_eq_setD scope.exhaust)

lemma classify_equiv:
  assumes "\<And>q. rel_sum (=) doc_equiv (parse_query q) (parse_query' q)"
  shows "rel_sum (=) classification_equiv
    (classify from_slice parse_query body) (classify from_slice parse_query' body)"
proof (cases "from_slice body")
  case (Inl e)
  then show ?thesis by (simp add: classify_alt)
next
  case (Inr raw)
  have "rel_sum (=) (list_all2 (\<lambda>ops ops'. mset ops = mset ops'))
      (map_result (classify_one parse_query) (requests_of raw))
      (map_result (classify_one parse_query') (requests_of raw))"
    by (intro map_result_rel classify_one_equiv assms)
  then show ?thesis
  proof (cases rule: rel_sum.cases)
    case (1 e e')
    with Inr show ?thesis by (simp add: classify_alt)
  next
    case (2 opss opss')
    then have "mset (concat opss) = mset (concat opss')" by (intro mset_concat_rel)
    moreover from this have "max_scope_or_read (concat opss) = max_scope_or_read (concat opss')"
      by (rule max_scope_or_read_mset)
    ultimately show ?thesis
      using Inr 2 by (simp add: classify_alt classification_equiv_def del: mset_concat)
  qed
qed

section \<open>Main theorems\<close>

text \<open>
  A concrete body: a query \<^verbatim>\<open>R\<close> beside a mutation \<^verbatim>\<open>W\<close> that aliases one field and reaches
  another through a fragment that spreads itself. The same request also with a forged operation name.
\<close>

definition ex_doc :: executable_document where
  "ex_doc =
     \<lparr>ed_operations =
        [(Some ''R'', \<lparr>od_ty = OtQuery,
                      od_selection_set = [Field None ''indexingRules'' [Field None ''id'' []]]\<rparr>),
         (Some ''W'', \<lparr>od_ty = OtMutation,
                      od_selection_set = [Field (Some ''go'') ''executeApprovedActions'' [],
                                          FragmentSpread ''M'']\<rparr>)],
      ed_fragments = [(''M'', [InlineFragment None [Field None ''queueActions'' []],
                              FragmentSpread ''M''])]\<rparr>"

definition ex_parse_query :: "string \<Rightarrow> (executable_document, string) result" where
  "ex_parse_query q = (if q = ''rw'' then Ok ex_doc else Err ''expected a selection'')"

definition ex_from_slice :: "bytes \<Rightarrow> (raw_body, string) result" where
  "ex_from_slice body =
     (if body = ''plain'' then Ok (Single \<lparr>gr_query = ''rw'', gr_operation_name = None\<rparr>)
      else if body = ''forged'' then Ok (Single \<lparr>gr_query = ''rw'', gr_operation_name = Some ''X''\<rparr>)
      else if body = ''read'' then Ok (Single \<lparr>gr_query = ''rw'', gr_operation_name = Some ''R''\<rparr>)
      else if body = ''broken'' then
        Ok (Batch [\<lparr>gr_query = ''rw'', gr_operation_name = Some ''R''\<rparr>,
                   \<lparr>gr_query = ''garbage'', gr_operation_name = None\<rparr>])
      else Err ''expected value'')"

definition ex_read_info :: operation_info where
  "ex_read_info = \<lparr>oi_name = Some ''R'', oi_kind = Query, oi_top_level_fields = [''indexingRules'']\<rparr>"

definition ex_write_info :: operation_info where
  "ex_write_info =
     \<lparr>oi_name = Some ''W'', oi_kind = Mutation,
      oi_top_level_fields = [''executeApprovedActions'', ''queueActions'']\<rparr>"

lemmas ex_classify_defs = ex_doc_def ex_parse_query_def ex_from_slice_def ex_read_info_def ex_write_info_def
  classify_def classify_document_def operations_to_classify_def matching_operations_def
  operation_info_of_def push_new_def op_scope_def max_def less_eq_scope_def scope_le_def Let_def

lemma ex_classify_forged:
  "classify ex_from_slice ex_parse_query ''forged'' =
     Ok \<lparr>cl_operations = [ex_read_info, ex_write_info], cl_scope = ScopeWrite\<rparr>"
  by (simp add: ex_classify_defs)

lemma ex_classify_read:
  "classify ex_from_slice ex_parse_query ''read'' =
     Ok \<lparr>cl_operations = [ex_read_info], cl_scope = ScopeRead\<rparr>"
  by (simp add: ex_classify_defs)

text \<open>
  C12. The fields that classification records for an operation are exactly the fields an executor
  would select at its root, each once: no alias, inline fragment, named fragment or cycle of
  fragments hides a field or adds one, and the traversal always ends.
\<close>

theorem collect_top_fields_exact:
  "set (fst (collect_top_fields items frags [] {})) = {f. root_field frags items f} \<and>
   distinct (fst (collect_top_fields items frags [] {}))"
  by (auto intro: collect_complete collect_distinct dest: collect_sound)

text \<open>
  C13. When a body is classified, its scope is \<^verbatim>\<open>write\<close> exactly when some operation that could
  execute, in any request of the batch, is a mutation. A read cannot carry a mutation along, and an
  operation name that is absent from the document selects nothing away.
\<close>

theorem classify_write_iff:
  assumes "classify from_slice parse_query body = Ok c"
  shows "cl_scope c = ScopeWrite \<longleftrightarrow>
    (\<exists>frags nop. executable_op from_slice parse_query body frags nop \<and> od_ty (snd nop) = OtMutation)"
proof -
  have "cl_scope c = ScopeWrite \<longleftrightarrow> (\<exists>oi \<in> set (cl_operations c). oi_kind oi = Mutation)"
    by (simp add: classify_scope [OF assms] max_scope_or_read_write)
  also have "\<dots> \<longleftrightarrow>
      (\<exists>frags nop. executable_op from_slice parse_query body frags nop \<and> od_ty (snd nop) = OtMutation)"
    using classify_operations_set [OF assms] by (metis operation_info_of_kind)
  finally show ?thesis .
qed

theorem classify_write_iff_witness:
  "\<exists>frags nop. executable_op ex_from_slice ex_parse_query ''forged'' frags nop \<and>
     od_ty (snd nop) = OtMutation"
  using classify_write_iff [OF ex_classify_forged] by simp

text \<open>
  C14. The operations of a classification are the operations that could execute, with their own name
  and kind and with exactly their root fields: none is missing, none is invented.
\<close>

theorem classify_operations_exact:
  assumes "classify from_slice parse_query body = Ok c"
  shows "(\<forall>oi \<in> set (cl_operations c). \<exists>frags nop.
            executable_op from_slice parse_query body frags nop \<and> describes oi frags nop) \<and>
    (\<forall>frags nop. executable_op from_slice parse_query body frags nop \<longrightarrow>
       (\<exists>oi \<in> set (cl_operations c). describes oi frags nop))"
  using classify_operations_set [OF assms] describes_operation_info_of by fastforce

theorem classify_operations_exact_witness:
  "\<exists>frags nop. executable_op ex_from_slice ex_parse_query ''read'' frags nop \<and>
     describes ex_read_info frags nop"
  using classify_operations_exact [OF ex_classify_read] by simp

text \<open>
  C37. Classification fails exactly when the body is not JSON of the expected shape, when the batch is
  empty, or at the first request of the batch whose query does not parse or whose document holds no
  operation. One unreadable request makes the whole batch an error.
\<close>

theorem classify_fails_iff:
  "classify from_slice parse_query body = Err e \<longleftrightarrow>
     (\<exists>d. from_slice body = Err d \<and> e = InvalidJson d) \<or>
     (\<exists>raw. from_slice body = Ok raw \<and>
        (requests_of raw = [] \<and> e = Empty \<or>
         (\<exists>req.
            first_at (\<lambda>r. \<exists>doc. parse_query (gr_query r) = Ok doc \<and> ed_operations doc \<noteq> [])
              (requests_of raw) req \<and>
            ((\<exists>d. parse_query (gr_query req) = Err d \<and> e = GraphqlParse d) \<or>
             (\<exists>doc. parse_query (gr_query req) = Ok doc \<and> ed_operations doc = [] \<and> e = Empty)))))"
proof (cases "from_slice body")
  case (Inl d)
  then show ?thesis by (auto simp: classify_alt)
next
  case (Inr raw)
  show ?thesis
  proof (cases "requests_of raw = []")
    case True
    with Inr show ?thesis by (auto simp: classify_alt)
  next
    case False
    have one: "(\<exists>ops. classify_one parse_query r = Ok ops) \<longleftrightarrow>
        (\<exists>doc. parse_query (gr_query r) = Ok doc \<and> ed_operations doc \<noteq> [])" for r
      by (auto simp: classify_one_Ok_iff)
    from Inr False show ?thesis
      by (simp add: classify_alt map_ok_Err_iff map_result_Err_iff one classify_one_Err_iff)
  qed
qed

theorem classify_fails_iff_witness:
  "classify ex_from_slice ex_parse_query ''broken'' = Err (GraphqlParse ''expected a selection'')"
proof -
  let ?r1 = "\<lparr>gr_query = ''rw'', gr_operation_name = Some ''R''\<rparr>"
  let ?r2 = "\<lparr>gr_query = ''garbage'', gr_operation_name = None\<rparr>"
  have "ex_from_slice ''broken'' = Ok (Batch [?r1, ?r2])" by (simp add: ex_from_slice_def)
  moreover have "first_at (\<lambda>r. \<exists>doc. ex_parse_query (gr_query r) = Ok doc \<and> ed_operations doc \<noteq> [])
      (requests_of (Batch [?r1, ?r2])) ?r2"
    by (simp add: ex_parse_query_def ex_doc_def)
  moreover have "ex_parse_query (gr_query ?r2) = Err ''expected a selection''"
    by (simp add: ex_parse_query_def)
  ultimately show ?thesis unfolding classify_fails_iff by blast
qed

text \<open>
  C38. Hash maps iterate in an unspecified order, yet two parsers whose documents differ in nothing
  else give the same errors and classifications with the same scope and the same operations.
\<close>

theorem classify_order_independent:
  assumes "\<And>q. rel_sum (=) doc_equiv (parse_query q) (parse_query' q)"
  shows "rel_sum (=) classification_equiv
    (classify from_slice parse_query body) (classify from_slice parse_query' body)"
  using assms by (rule classify_equiv)

definition ex_parse_query_swapped :: "string \<Rightarrow> (executable_document, string) result" where
  "ex_parse_query_swapped q =
     (if q = ''rw'' then Ok (ex_doc\<lparr>ed_operations := rev (ed_operations ex_doc)\<rparr>)
      else Err ''expected a selection'')"

theorem classify_order_independent_witness:
  "classify ex_from_slice ex_parse_query_swapped ''forged'' \<noteq> classify ex_from_slice ex_parse_query ''forged'' \<and>
   rel_sum (=) classification_equiv
     (classify ex_from_slice ex_parse_query ''forged'')
     (classify ex_from_slice ex_parse_query_swapped ''forged'')"
proof
  show "classify ex_from_slice ex_parse_query_swapped ''forged'' \<noteq> classify ex_from_slice ex_parse_query ''forged''"
    by (simp add: ex_classify_defs ex_parse_query_swapped_def)
  show "rel_sum (=) classification_equiv
     (classify ex_from_slice ex_parse_query ''forged'')
     (classify ex_from_slice ex_parse_query_swapped ''forged'')"
    by (rule classify_order_independent)
      (simp add: ex_parse_query_def ex_parse_query_swapped_def doc_equiv_def)
qed

end
