(* ===== verification/Iga_Ratelimit.thy ===== *)
theory Iga_Ratelimit
  imports Iga_Classify
begin

text \<open>
  Rate limiting (\<^verbatim>\<open>src/src/ratelimit.rs\<close>): one keyed limiter per scope, keyed by the name
  of the principal.

  The keyed limiter is the crate \<^verbatim>\<open>governor\<close>: its state is a type parameter \<open>'l\<close>,
  \<open>quota_new\<close> is \<^verbatim>\<open>Quota::new\<close> (burst, seconds), \<open>keyed\<close> is \<^verbatim>\<open>RateLimiter::keyed\<close>
  and \<open>check_key\<close> is \<^verbatim>\<open>check_key(..).is_ok()\<close> at an instant of its clock, with the state after
  it. What that crate documents is the predicate \<open>governor\<close> below, a hypothesis of the theorems
  that need it.
\<close>

section \<open>Limiters\<close>

record 'l rate_limiters =
  rl_read :: "'l option"
  rl_write :: "'l option"

definition build :: "(u32 \<Rightarrow> nat \<Rightarrow> 'q option) \<Rightarrow> ('q \<Rightarrow> 'l) \<Rightarrow> u32 \<Rightarrow> 'l option" where
  "build quota_new keyed per_minute =
     (if per_minute = 0 then None else map_option keyed (quota_new per_minute 60))"

definition rate_limiters_new ::
  "(u32 \<Rightarrow> nat \<Rightarrow> 'q option) \<Rightarrow> ('q \<Rightarrow> 'l) \<Rightarrow> u32 \<Rightarrow> u32 \<Rightarrow> 'l rate_limiters" where
  "rate_limiters_new quota_new keyed read_per_minute write_per_minute =
     \<lparr>rl_read = build quota_new keyed read_per_minute,
      rl_write = build quota_new keyed write_per_minute\<rparr>"

definition check ::
  "('t \<Rightarrow> 'l \<Rightarrow> string \<Rightarrow> bool \<times> 'l) \<Rightarrow> 't \<Rightarrow> 'l rate_limiters \<Rightarrow> scope \<Rightarrow> string \<Rightarrow>
   bool \<times> 'l rate_limiters" where
  "check check_key t limiters s key =
     (case s of
        ScopeRead \<Rightarrow>
          (case rl_read limiters of
             Some l \<Rightarrow> let (ok, l') = check_key t l key in (ok, limiters\<lparr>rl_read := Some l'\<rparr>)
           | None \<Rightarrow> (True, limiters))
      | ScopeWrite \<Rightarrow>
          (case rl_write limiters of
             Some l \<Rightarrow> let (ok, l') = check_key t l key in (ok, limiters\<lparr>rl_write := Some l'\<rparr>)
           | None \<Rightarrow> (True, limiters)))"

section \<open>Independent cells\<close>

text \<open>
  \<open>keyed_cells chk cell step\<close>: a check of one key reads and changes the cell of that key only, as
  \<open>step\<close> does. The relation holds of the crate's limiter by its documentation, and is shown below
  for the pair of limiters with the pair of scope and name as the key.
\<close>

definition keyed_cells ::
  "('t \<Rightarrow> 'l \<Rightarrow> 'k \<Rightarrow> bool \<times> 'l) \<Rightarrow> ('l \<Rightarrow> 'k \<Rightarrow> 'c) \<Rightarrow> ('t \<Rightarrow> 'c \<Rightarrow> bool \<times> 'c) \<Rightarrow> bool" where
  "keyed_cells chk cell step \<longleftrightarrow>
     (\<forall>t l k. fst (chk t l k) = fst (step t (cell l k)) \<and>
        cell (snd (chk t l k)) = (cell l)(k := snd (step t (cell l k))))"

text \<open>The answers to a sequence of checks, and to the checks of a single cell.\<close>

fun run_checks :: "('t \<Rightarrow> 'l \<Rightarrow> 'k \<Rightarrow> bool \<times> 'l) \<Rightarrow> 'l \<Rightarrow> ('t \<times> 'k) list \<Rightarrow> bool list" where
  "run_checks chk l [] = []"
| "run_checks chk l ((t, k) # trace) = (let (ok, l') = chk t l k in ok # run_checks chk l' trace)"

fun run_cell :: "('t \<Rightarrow> 'c \<Rightarrow> bool \<times> 'c) \<Rightarrow> 'c \<Rightarrow> 't list \<Rightarrow> bool list" where
  "run_cell step c [] = []"
| "run_cell step c (t # ts) = (let (ok, c') = step t c in ok # run_cell step c' ts)"

text \<open>The answers given to one key, and the instants of its checks.\<close>

definition answers_for :: "'k \<Rightarrow> ('t \<times> 'k) list \<Rightarrow> bool list \<Rightarrow> bool list" where
  "answers_for k trace answers = map snd (filter (\<lambda>((t, k'), b). k' = k) (zip trace answers))"

definition times_for :: "'k \<Rightarrow> ('t \<times> 'k) list \<Rightarrow> 't list" where
  "times_for k trace = map fst (filter (\<lambda>(t, k'). k' = k) trace)"

lemma answers_for_simps [simp]:
  "answers_for k [] bs = []"
  "answers_for k ((t, k') # trace) (b # bs) =
     (if k' = k then b # answers_for k trace bs else answers_for k trace bs)"
  by (simp_all add: answers_for_def)

lemma times_for_simps [simp]:
  "times_for k [] = []"
  "times_for k ((t, k') # trace) = (if k' = k then t # times_for k trace else times_for k trace)"
  by (simp_all add: times_for_def)

lemma run_checks_isolated:
  assumes "keyed_cells chk cell step"
  shows "answers_for k trace (run_checks chk l trace) = run_cell step (cell l k) (times_for k trace)"
proof (induction trace arbitrary: l)
  case Nil
  then show ?case by simp
next
  case (Cons x trace)
  obtain t k' where x: "x = (t, k')" by (cases x)
  obtain ok l' where c: "chk t l k' = (ok, l')" by (cases "chk t l k'")
  with assms have "ok = fst (step t (cell l k'))" "cell l' = (cell l)(k' := snd (step t (cell l k')))"
    unfolding keyed_cells_def by (metis fst_conv, metis snd_conv)
  with c x show ?case by (simp add: Cons.IH case_prod_beta)
qed

text \<open>The state after a sequence of checks.\<close>

fun run_state :: "('t \<Rightarrow> 'l \<Rightarrow> 'k \<Rightarrow> bool \<times> 'l) \<Rightarrow> 'l \<Rightarrow> ('t \<times> 'k) list \<Rightarrow> 'l" where
  "run_state chk l [] = l"
| "run_state chk l ((t, k) # trace) = run_state chk (snd (chk t l k)) trace"

lemma run_checks_append:
  "run_checks chk l (xs @ ys) = run_checks chk l xs @ run_checks chk (run_state chk l xs) ys"
  by (induction chk l xs rule: run_state.induct) (simp_all add: case_prod_beta)

lemma length_run_checks [simp]: "length (run_checks chk l trace) = length trace"
  by (induction chk l trace rule: run_state.induct) (simp_all add: case_prod_beta)

lemma answers_for_append:
  "length xs = length bs \<Longrightarrow> answers_for k (xs @ ys) (bs @ cs) = answers_for k xs bs @ answers_for k ys cs"
  by (simp add: answers_for_def)

lemma run_checks_snoc:
  "run_checks chk l (trace @ [(t, k)]) = run_checks chk l trace @ [fst (chk t (run_state chk l trace) k)]"
  by (induction chk l trace rule: run_state.induct) (simp_all add: case_prod_beta)

lemma run_state_snoc:
  "run_state chk l (trace @ [(t, k)]) = snd (chk t (run_state chk l trace) k)"
  by (induction chk l trace rule: run_state.induct) simp_all

lemma length_answers_for:
  "length (filter (\<lambda>((t, k'), ok). k' = k \<and> ok) tr) =
     length (filter (\<lambda>ok. ok) (answers_for k (map fst tr) (map snd tr)))"
proof (induction tr)
  case Nil
  then show ?case by simp
next
  case (Cons e tr)
  obtain t k' ok where "e = ((t, k'), ok)" by (metis prod.exhaust)
  with Cons show ?case by (cases "k' = k") simp_all
qed

text \<open>The limiters of the gateway as one keyed limiter; a missing limiter is a cell \<^term>\<open>None\<close>.\<close>

definition limiter_for :: "'l rate_limiters \<Rightarrow> scope \<Rightarrow> 'l option" where
  "limiter_for limiters s = (case s of ScopeRead \<Rightarrow> rl_read limiters | ScopeWrite \<Rightarrow> rl_write limiters)"

definition check_pair ::
  "('t \<Rightarrow> 'l \<Rightarrow> string \<Rightarrow> bool \<times> 'l) \<Rightarrow> 't \<Rightarrow> 'l rate_limiters \<Rightarrow> scope \<times> string \<Rightarrow>
   bool \<times> 'l rate_limiters" where
  "check_pair check_key t limiters = (\<lambda>(s, key). check check_key t limiters s key)"

definition pair_cell :: "('l \<Rightarrow> string \<Rightarrow> 'c) \<Rightarrow> 'l rate_limiters \<Rightarrow> scope \<times> string \<Rightarrow> 'c option" where
  "pair_cell cell limiters = (\<lambda>(s, key). map_option (\<lambda>l. cell l key) (limiter_for limiters s))"

definition pair_step :: "('t \<Rightarrow> 'c \<Rightarrow> bool \<times> 'c) \<Rightarrow> 't \<Rightarrow> 'c option \<Rightarrow> bool \<times> 'c option" where
  "pair_step step t oc = (case oc of None \<Rightarrow> (True, None) | Some c \<Rightarrow> map_prod id Some (step t c))"

lemma check_keyed_cells:
  assumes "keyed_cells check_key cell step"
  shows "keyed_cells (check_pair check_key) (pair_cell cell) (pair_step step)"
proof -
  have laws: "fst (check_key t l k) = fst (step t (cell l k))"
    "cell (snd (check_key t l k)) = (cell l)(k := snd (step t (cell l k)))" for t l k
    using assms unfolding keyed_cells_def by auto
  show ?thesis
    unfolding keyed_cells_def check_pair_def pair_cell_def pair_step_def check_def limiter_for_def
    by (auto simp: fun_eq_iff laws case_prod_beta split: scope.split option.split)
qed

lemma run_cell_unlimited: "run_cell (pair_step step) None ts = replicate (length ts) True"
  by (induction ts) (simp_all add: pair_step_def)

lemma run_cell_limited: "run_cell (pair_step step) (Some c) ts = run_cell step c ts"
  by (induction ts arbitrary: c) (simp_all add: pair_step_def case_prod_beta)

section \<open>What the keyed limiter documents\<close>

text \<open>
  The documented behaviour of \<^verbatim>\<open>governor\<close>, for the calls made here. A quota of a positive burst
  over a positive period exists, and its keyed limiter gives every key a fresh cell of its own. A
  cell has, at each instant, a number of checks it still accepts at that instant: a fresh cell the
  burst, a check takes one while there is one and is refused otherwise, and time only adds.
\<close>

definition governor ::
  "(u32 \<Rightarrow> nat \<Rightarrow> 'q option) \<Rightarrow> ('q \<Rightarrow> 'l) \<Rightarrow> ('t::order \<Rightarrow> 'l \<Rightarrow> string \<Rightarrow> bool \<times> 'l) \<Rightarrow>
   ('l \<Rightarrow> string \<Rightarrow> 'c) \<Rightarrow> (u32 \<Rightarrow> 'c) \<Rightarrow> ('t \<Rightarrow> 'c \<Rightarrow> bool \<times> 'c) \<Rightarrow> ('t \<Rightarrow> 'c \<Rightarrow> nat) \<Rightarrow> bool" where
  "governor quota_new keyed check_key cell fresh step remaining \<longleftrightarrow>
     (\<forall>n. n \<noteq> 0 \<longrightarrow> (\<exists>q. quota_new n 60 = Some q \<and> (\<forall>k. cell (keyed q) k = fresh n))) \<and>
     keyed_cells check_key cell step \<and>
     (\<forall>t n. remaining t (fresh n) = unat n) \<and>
     (\<forall>t c. fst (step t c) \<longleftrightarrow> 0 < remaining t c) \<and>
     (\<forall>t c. remaining t (snd (step t c)) = remaining t c - 1) \<and>
     (\<forall>t t' c. t \<le> t' \<longrightarrow> remaining t c \<le> remaining t' c)"

definition budget :: "u32 \<Rightarrow> u32 \<Rightarrow> scope \<Rightarrow> u32" where
  "budget read_per_minute write_per_minute s =
     (case s of ScopeRead \<Rightarrow> read_per_minute | ScopeWrite \<Rightarrow> write_per_minute)"

lemma new_pair_cell:
  assumes "governor quota_new keyed check_key cell fresh step remaining"
  shows "pair_cell cell (rate_limiters_new quota_new keyed r w) (s, k) =
    (if budget r w s = 0 then None else Some (fresh (budget r w s)))"
proof -
  have "map_option (\<lambda>l. cell l k) (build quota_new keyed n) = (if n = 0 then None else Some (fresh n))" for n
    using assms unfolding governor_def build_def by (cases "n = 0") auto
  then show ?thesis
    by (cases s)
      (simp_all only: pair_cell_def limiter_for_def rate_limiters_new_def budget_def
        rate_limiters.simps scope.case prod.case)
qed

lemma run_cell_constant:
  assumes "\<And>t c. fst (step t c) \<longleftrightarrow> 0 < remaining t c"
    and "\<And>t c. remaining t (snd (step t c)) = remaining t c - 1"
  shows "run_cell step c (replicate m t) =
    replicate (min m (remaining t c)) True @ replicate (m - remaining t c) False"
proof (induction m arbitrary: c)
  case 0
  then show ?case by simp
next
  case (Suc m)
  obtain ok c' where s: "step t c = (ok, c')" by (cases "step t c")
  with assms [of t c] have ok: "ok \<longleftrightarrow> 0 < remaining t c" and r: "remaining t c' = remaining t c - 1"
    by auto
  show ?case
  proof (cases "remaining t c")
    case 0
    with s ok r Suc [of c'] show ?thesis by simp
  next
    case (Suc j)
    with s ok r Suc.IH [of c'] show ?thesis by simp
  qed
qed

lemma run_cell_first:
  assumes "\<And>t c. fst (step t c) \<longleftrightarrow> 0 < remaining t c"
    and "\<And>t c. remaining t (snd (step t c)) = remaining t c - 1"
    and "\<And>t t' c. t \<le> t' \<Longrightarrow> remaining t c \<le> remaining t' c"
    and "sorted_wrt (\<le>) ts" and "\<And>t. t \<in> set ts \<Longrightarrow> m \<le> remaining t c"
  shows "take m (run_cell step c ts) = replicate (min m (length ts)) True"
  using assms(4,5)
proof (induction ts arbitrary: c m)
  case Nil
  then show ?case by simp
next
  case (Cons t ts)
  obtain ok c' where s: "step t c = (ok, c')" by (cases "step t c")
  show ?case
  proof (cases m)
    case 0
    then show ?thesis by simp
  next
    case (Suc j)
    from assms(2) [of t c] s have r: "remaining t c' = remaining t c - 1" by simp
    have "j \<le> remaining t' c'" if "t' \<in> set ts" for t'
    proof -
      from that Cons.prems(1) have "t \<le> t'" by simp
      with assms(3) [of t t' c'] r Cons.prems(2) [of t] Suc show ?thesis by simp
    qed
    with Cons.IH [of j c'] Cons.prems(1) have "take j (run_cell step c' ts) = replicate (min j (length ts)) True"
      by simp
    moreover have "ok" using assms(1) [of t c] s Cons.prems(2) [of t] Suc by simp
    ultimately show ?thesis using Suc s by simp
  qed
qed

lemma answers_limited:
  assumes "governor quota_new keyed check_key cell fresh step remaining" and "budget r w s \<noteq> 0"
  shows "answers_for (s, k) trace
      (run_checks (check_pair check_key) (rate_limiters_new quota_new keyed r w) trace) =
    run_cell step (fresh (budget r w s)) (times_for (s, k) trace)"
proof -
  from assms(1) have "keyed_cells check_key cell step" by (simp add: governor_def)
  from run_checks_isolated [OF check_keyed_cells [OF this]] show ?thesis
    by (simp add: new_pair_cell [OF assms(1)] assms(2) run_cell_limited)
qed

lemma answers_at_instant:
  assumes "governor quota_new keyed check_key cell fresh step remaining" and "budget r w s \<noteq> 0"
    and "times_for (s, k) trace = replicate m t"
  shows "answers_for (s, k) trace
      (run_checks (check_pair check_key) (rate_limiters_new quota_new keyed r w) trace) =
    replicate (min m (unat (budget r w s))) True @ replicate (m - unat (budget r w s)) False"
proof -
  from assms(1) have laws: "\<And>t c. fst (step t c) \<longleftrightarrow> 0 < remaining t c"
      "\<And>t c. remaining t (snd (step t c)) = remaining t c - 1"
    and fresh: "remaining t (fresh (budget r w s)) = unat (budget r w s)"
    by (auto simp: governor_def)
  show ?thesis
    unfolding answers_limited [OF assms(1,2)] assms(3)
    using run_cell_constant [where remaining = remaining, OF laws, of "fresh (budget r w s)" m t]
    by (simp add: fresh)
qed

section \<open>Main theorems\<close>

text \<open>
  Isolation: in any interleaving of checks, the answers that one principal gets for one scope
  are those of a fresh cell of its own with the budget of that scope, checked at the instants of its
  own checks. No check of another principal or of the other scope has any influence, and a budget of
  zero accepts everything.
\<close>

lemma check_isolated:
  assumes "governor quota_new keyed check_key cell fresh step remaining"
  shows "answers_for (s, k) trace
      (run_checks (check_pair check_key) (rate_limiters_new quota_new keyed r w) trace) =
    (if budget r w s = 0 then replicate (length (times_for (s, k) trace)) True
     else run_cell step (fresh (budget r w s)) (times_for (s, k) trace))"
proof -
  from assms have "keyed_cells check_key cell step" by (simp add: governor_def)
  from run_checks_isolated [OF check_keyed_cells [OF this]] show ?thesis
    by (simp add: new_pair_cell [OF assms] run_cell_unlimited run_cell_limited)
qed

text \<open>
  Budget: among the checks that one principal makes for one scope with a positive budget, the
  first ones up to the budget are always accepted, whatever everybody else does; and if all its
  checks fall at the same instant, exactly those are accepted and the rest are refused.
\<close>

lemma check_budget:
  assumes "governor quota_new keyed check_key cell fresh step remaining"
    and "budget r w s \<noteq> 0" and "sorted_wrt (\<le>) (times_for (s, k) trace)"
    and "answers = answers_for (s, k) trace
      (run_checks (check_pair check_key) (rate_limiters_new quota_new keyed r w) trace)"
  shows "take (unat (budget r w s)) answers =
      replicate (min (unat (budget r w s)) (length (times_for (s, k) trace))) True \<and>
    (times_for (s, k) trace = replicate m t \<longrightarrow>
      answers = replicate (min m (unat (budget r w s))) True @ replicate (m - unat (budget r w s)) False)"
proof -
  let ?b = "budget r w s" and ?ts = "times_for (s, k) trace"
  from assms(1) have
    laws: "\<And>t c. fst (step t c) \<longleftrightarrow> 0 < remaining t c"
      "\<And>t c. remaining t (snd (step t c)) = remaining t c - 1"
    and mono: "\<And>t t' c. t \<le> t' \<Longrightarrow> remaining t c \<le> remaining t' c"
    and fresh: "\<And>t. remaining t (fresh ?b) = unat ?b"
    by (auto simp: governor_def)
  have "take (unat ?b) (run_cell step (fresh ?b) ?ts) = replicate (min (unat ?b) (length ?ts)) True"
    by (rule run_cell_first [where remaining = remaining, OF laws mono assms(3)]) (simp_all add: fresh)
  then show ?thesis
    using answers_at_instant [OF assms(1,2)] by (simp add: assms(4) answers_limited [OF assms(1,2)])
qed

end
