(* ===== verification/Iga_Refill.thy ===== *)
theory Iga_Refill
  imports Complex_Main Iga_Ratelimit
begin

text \<open>
  How a budget comes back over time (\<^verbatim>\<open>Quota::new(n, 60s)\<close> in \<^verbatim>\<open>src/src/ratelimit.rs\<close>): the
  documented laws of replenishment as hypotheses, a used-up budget that is whole again after a
  minute, and a bound on what passes in a window of time. The laws are shown for the generic cell
  rate algorithm, with a theoretical arrival time per cell.
\<close>

section \<open>Replenishment\<close>

text \<open>
  What \<^verbatim>\<open>Quota::new\<close> documents of its second argument: the whole burst is replenished once per
  period. \<open>idle t c\<close> says that no check of the cell is later than \<open>t\<close>, and \<open>cap c\<close> is its burst.
\<close>

definition replenishes ::
  "'t::{order,plus} \<Rightarrow> (u32 \<Rightarrow> 'c) \<Rightarrow> ('t \<Rightarrow> 'c \<Rightarrow> bool \<times> 'c) \<Rightarrow> ('t \<Rightarrow> 'c \<Rightarrow> nat) \<Rightarrow> ('c \<Rightarrow> nat) \<Rightarrow>
   ('t \<Rightarrow> 'c \<Rightarrow> bool) \<Rightarrow> bool" where
  "replenishes minute fresh step remaining cap idle \<longleftrightarrow>
     (\<forall>t n. cap (fresh n) = unat n \<and> idle t (fresh n)) \<and>
     (\<forall>t c. cap (snd (step t c)) = cap c) \<and>
     (\<forall>t t' c. idle t c \<longrightarrow> t \<le> t' \<longrightarrow> idle t' (snd (step t' c))) \<and>
     (\<forall>t t' c. idle t c \<longrightarrow> t + minute \<le> t' \<longrightarrow> remaining t' c = cap c)"

fun cell_after :: "('t \<Rightarrow> 'c \<Rightarrow> bool \<times> 'c) \<Rightarrow> 'c \<Rightarrow> 't list \<Rightarrow> 'c" where
  "cell_after step c [] = c"
| "cell_after step c (t # ts) = cell_after step (snd (step t c)) ts"

lemma run_cell_append:
  "run_cell step c (ts @ us) = run_cell step c ts @ run_cell step (cell_after step c ts) us"
  by (induction ts arbitrary: c) (simp_all add: case_prod_beta)

lemma times_for_append: "times_for k (xs @ ys) = times_for k xs @ times_for k ys"
  by (simp add: times_for_def)

lemma sorted_wrt_bounds:
  fixes ts :: "'t::order list"
  assumes "sorted_wrt (\<le>) ts" and "t \<in> set ts"
  shows "hd ts \<le> t \<and> t \<le> last ts"
  using assms by (induction ts) (auto split: if_splits)

lemma cell_after_idle:
  assumes "replenishes minute fresh step remaining cap idle"
    and "sorted_wrt (\<le>) ts" and "\<And>t. t \<in> set ts \<Longrightarrow> start \<le> t \<and> t \<le> stop" and "idle start c" and "start \<le> stop"
  shows "cap (cell_after step c ts) = cap c \<and>
    (\<exists>last. last \<le> stop \<and> idle last (cell_after step c ts))"
  using assms(2-5)
proof (induction ts arbitrary: start c)
  case Nil
  then show ?case by auto
next
  case (Cons t ts)
  from assms(1) have laws: "cap (snd (step t c)) = cap c" "idle start c \<Longrightarrow> start \<le> t \<Longrightarrow> idle t (snd (step t c))"
    by (auto simp: replenishes_def)
  from Cons.prems have "idle t (snd (step t c))" "t \<le> stop" by (auto intro: laws)
  with Cons.prems Cons.IH [of t "snd (step t c)"] laws(1) show ?case by simp
qed

text \<open>
  The other side of it: cells are replenished one by one at a uniform rate, the burst per period. A
  cell has a \<open>level\<close>, never above its burst, of which an accepted check takes one and to which the
  time that passes adds in proportion.
\<close>

definition refill_bounded ::
  "rat \<Rightarrow> (u32 \<Rightarrow> 'c) \<Rightarrow> (rat \<Rightarrow> 'c \<Rightarrow> bool \<times> 'c) \<Rightarrow> ('c \<Rightarrow> nat) \<Rightarrow> (rat \<Rightarrow> 'c \<Rightarrow> rat) \<Rightarrow> bool" where
  "refill_bounded minute fresh step cap level \<longleftrightarrow>
     (\<forall>n. cap (fresh n) = unat n) \<and>
     (\<forall>t c. cap (snd (step t c)) = cap c) \<and>
     (\<forall>t c. 0 \<le> level t c \<and> level t c \<le> of_nat (cap c)) \<and>
     (\<forall>t c. level t (snd (step t c)) = level t c - of_bool (fst (step t c))) \<and>
     (\<forall>t t' c. t \<le> t' \<longrightarrow> level t' c \<le> level t c + of_nat (cap c) * (t' - t) / minute)"

text \<open>What a cell accepts from an instant on is paid for by its level then and by the time since.\<close>

lemma accepted_paid:
  assumes laws: "refill_bounded minute fresh step cap level" and "0 < minute"
    and "sorted_wrt (\<le>) ts" and "\<And>t. t \<in> set ts \<Longrightarrow> start \<le> t \<and> t \<le> stop" and "start \<le> stop"
  shows "of_nat (length (filter (\<lambda>ok. ok) (run_cell step c ts))) \<le>
    level start c + of_nat (cap c) * (stop - start) / minute"
  using assms(3-5)
proof (induction ts arbitrary: start c)
  case Nil
  from laws have "0 \<le> level start c" by (simp add: refill_bounded_def)
  with Nil.prems assms(2) show ?case by simp
next
  case (Cons t ts)
  obtain ok c' where s: "step t c = (ok, c')" by (cases "step t c")
  with laws have cap: "cap c' = cap c" and lev: "level t c' = level t c - of_bool ok"
    unfolding refill_bounded_def by (metis snd_conv, metis fst_conv snd_conv)
  have t: "start \<le> t" "t \<le> stop" using Cons.prems by auto
  have grow: "level t c \<le> level start c + of_nat (cap c) * (t - start) / minute"
    using laws t(1) unfolding refill_bounded_def by blast
  have split: "of_nat (cap c) * (stop - start) / minute =
      of_nat (cap c) * (t - start) / minute + of_nat (cap c) * (stop - t) / minute"
    by (simp add: algebra_simps add_divide_distrib diff_divide_distrib)
  have "of_nat (length (filter (\<lambda>ok. ok) (run_cell step c' ts))) \<le>
      level t c' + of_nat (cap c') * (stop - t) / minute"
    using Cons.IH [of t c'] Cons.prems t by simp
  with s cap lev grow split show ?case by (cases ok) simp_all
qed

lemma cell_after_cap:
  assumes "refill_bounded minute fresh step cap level"
  shows "cap (cell_after step c ts) = cap c"
  using assms by (induction ts arbitrary: c) (simp_all add: refill_bounded_def)

section \<open>The generic cell rate algorithm\<close>

text \<open>
  A cell is its burst and the theoretical arrival time of its next check, once there was a check. Its
  level is the share of the period, in intervals of a sixtieth of a minute per element of the burst,
  by which the arrival time is not yet ahead of the clock.
\<close>

type_synonym gcra_cell = "nat \<times> rat option"

definition gcra_level :: "rat \<Rightarrow> gcra_cell \<Rightarrow> rat" where
  "gcra_level t = (\<lambda>(n, tat). case tat of
     None \<Rightarrow> of_nat n
   | Some a \<Rightarrow> max 0 (min (of_nat n) ((t + 60 - a) * of_nat n / 60)))"

definition gcra_step :: "rat \<Rightarrow> gcra_cell \<Rightarrow> bool \<times> gcra_cell" where
  "gcra_step t = (\<lambda>(n, tat).
     if 1 \<le> gcra_level t (n, tat)
     then (True, n, Some ((case tat of None \<Rightarrow> t | Some a \<Rightarrow> max t a) + 60 / of_nat n))
     else (False, n, tat))"

definition gcra_remaining :: "rat \<Rightarrow> gcra_cell \<Rightarrow> nat" where
  "gcra_remaining t c = nat \<lfloor>gcra_level t c\<rfloor>"

definition gcra_idle :: "rat \<Rightarrow> gcra_cell \<Rightarrow> bool" where
  "gcra_idle t = (\<lambda>(n, tat). case tat of None \<Rightarrow> True | Some a \<Rightarrow> a \<le> t + 60)"

definition gcra_check :: "rat \<Rightarrow> (string \<Rightarrow> gcra_cell) \<Rightarrow> string \<Rightarrow> bool \<times> (string \<Rightarrow> gcra_cell)" where
  "gcra_check t l k = (fst (gcra_step t (l k)), l(k := snd (gcra_step t (l k))))"

text \<open>Quotas and fresh limiters for it.\<close>

definition ex_quota :: "u32 \<Rightarrow> nat \<Rightarrow> nat option" where
  "ex_quota n secs = (if secs = 0 then None else Some (unat n))"

definition ex_keyed :: "nat \<Rightarrow> string \<Rightarrow> gcra_cell" where
  "ex_keyed n = (\<lambda>_. (n, None))"

lemma gcra_level_bounds: "0 \<le> gcra_level t c" "gcra_level t c \<le> of_nat (fst c)"
  by (auto simp: gcra_level_def split: prod.split option.split)

lemma gcra_level_step: "gcra_level t (snd (gcra_step t c)) = gcra_level t c - of_bool (fst (gcra_step t c))"
proof (cases c)
  case (Pair n tat)
  show ?thesis
  proof (cases "1 \<le> gcra_level t c")
    case True
    with gcra_level_bounds(2) [of t c] Pair have n: "0 < n" by (cases n) auto
    show ?thesis
    proof (cases tat)
      case None
      from n have "(t + 60 - (t + 60 / of_nat n)) * of_nat n / 60 = (of_nat n - 1 :: rat)"
        by (simp add: field_simps)
      with True None Pair n show ?thesis by (simp add: gcra_step_def gcra_level_def)
    next
      case (Some a)
      have "(t + 60 - (max t a + 60 / of_nat n)) * of_nat n / 60 = min (of_nat n) ((t + 60 - a) * of_nat n / 60) - (1 :: rat)"
        using n by (auto simp: max_def min_def field_simps)
      with True Some Pair n show ?thesis by (auto simp: gcra_step_def gcra_level_def max_def split: if_splits)
    qed
  next
    case False
    with Pair show ?thesis by (simp add: gcra_step_def)
  qed
qed

lemma gcra_cap: "fst (snd (gcra_step t c)) = fst c"
  by (cases c) (simp add: gcra_step_def)

lemma gcra_accepts: "fst (gcra_step t c) \<longleftrightarrow> 1 \<le> gcra_level t c"
  by (cases c) (simp add: gcra_step_def)

lemma gcra_level_mono: "t \<le> t' \<Longrightarrow> gcra_level t c \<le> gcra_level t' c"
proof (cases c)
  case (Pair n tat)
  assume "t \<le> t'"
  then have "(t + 60 - a) * of_nat n / 60 \<le> (t' + 60 - a) * of_nat n / 60" for a
    by (intro divide_right_mono mult_right_mono) simp_all
  then have "max 0 (min (of_nat n) ((t + 60 - a) * of_nat n / 60)) \<le> max 0 (min (of_nat n) ((t' + 60 - a) * of_nat n / 60))"
    for a by (intro max.mono min.mono) simp_all
  then show ?thesis by (simp add: Pair gcra_level_def split: option.split)
qed

lemma gcra_level_growth:
  assumes "t \<le> t'"
  shows "gcra_level t' c \<le> gcra_level t c + of_nat (fst c) * (t' - t) / 60"
proof (cases c)
  case (Pair n tat)
  let ?d = "of_nat n * (t' - t) / 60"
  from assms have "0 \<le> ?d" by simp
  moreover have "(t' + 60 - a) * of_nat n / 60 = (t + 60 - a) * of_nat n / 60 + ?d" for a
    by (simp add: algebra_simps add_divide_distrib diff_divide_distrib)
  ultimately show ?thesis by (auto simp: Pair gcra_level_def max_def min_def split: option.split)
qed

lemma gcra_remaining_step: "gcra_remaining t (snd (gcra_step t c)) = gcra_remaining t c - 1"
proof (cases "fst (gcra_step t c)")
  case True
  then show ?thesis by (simp add: gcra_remaining_def gcra_level_step nat_diff_distrib')
next
  case False
  then have "gcra_level t c < 1" by (simp add: gcra_accepts)
  with False show ?thesis by (simp add: gcra_remaining_def gcra_level_step)
qed

lemma gcra_governor:
  "governor ex_quota ex_keyed gcra_check (\<lambda>l. l) (\<lambda>n. (unat n, None)) gcra_step gcra_remaining"
proof -
  have "keyed_cells gcra_check (\<lambda>l. l) gcra_step"
    by (simp add: keyed_cells_def gcra_check_def)
  moreover have "fst (gcra_step t c) \<longleftrightarrow> 0 < gcra_remaining t c" for t c
    by (simp add: gcra_accepts gcra_remaining_def)
  moreover have "t \<le> t' \<Longrightarrow> gcra_remaining t c \<le> gcra_remaining t' c" for t t' c
    by (simp add: gcra_remaining_def gcra_level_mono floor_mono nat_mono)
  moreover have "gcra_remaining t (n, None) = n" for t n
    by (simp add: gcra_remaining_def gcra_level_def)
  ultimately show ?thesis
    by (simp add: governor_def ex_quota_def ex_keyed_def gcra_remaining_step)
qed

lemma gcra_refill: "refill_bounded 60 (\<lambda>n. (unat n, None)) gcra_step fst gcra_level"
  by (simp add: refill_bounded_def gcra_cap gcra_level_bounds gcra_level_step gcra_level_growth)

lemma gcra_idle_step:
  assumes "gcra_idle t c" and "t \<le> t'"
  shows "gcra_idle t' (snd (gcra_step t' c))"
proof (cases c)
  case (Pair n tat)
  show ?thesis
  proof (cases "1 \<le> gcra_level t' c")
    case True
    with gcra_level_bounds(2) [of t' c] Pair have n: "0 < n" by (cases n) auto
    then have period: "60 / of_nat n \<le> (60 :: rat)" by (simp add: field_simps)
    show ?thesis
    proof (cases tat)
      case None
      with True Pair period show ?thesis by (simp add: gcra_step_def gcra_idle_def)
    next
      case (Some a)
      with True Pair have "1 \<le> (t' + 60 - a) * of_nat n / 60" by (simp add: gcra_level_def)
      with n have "a + 60 / of_nat n \<le> t' + 60" by (simp add: field_simps)
      with True Some Pair period show ?thesis by (simp add: gcra_step_def gcra_idle_def max_def)
    qed
  next
    case False
    with assms Pair show ?thesis by (auto simp: gcra_step_def gcra_idle_def split: option.splits)
  qed
qed

lemma gcra_replenishes:
  "replenishes 60 (\<lambda>n. (unat n, None)) gcra_step gcra_remaining fst gcra_idle"
proof -
  have "gcra_remaining t' c = fst c" if "gcra_idle t c" "t + 60 \<le> t'" for t t' c
  proof (cases c)
    case (Pair n tat)
    have "of_nat n \<le> (t' + 60 - a) * of_nat n / (60 :: rat)" if "a \<le> t'" for a
      using that mult_right_mono [of 60 "t' + 60 - a" "of_nat n :: rat"] by simp
    with that Pair show ?thesis
      by (auto simp: gcra_remaining_def gcra_level_def gcra_idle_def min_def split: option.splits)
  qed
  then show ?thesis by (auto simp: replenishes_def gcra_cap gcra_idle_step) (simp add: gcra_idle_def)
qed

section \<open>The budget in a run of checks\<close>

lemma recovered_answers:
  fixes t' :: "'t::ordered_ab_semigroup_add"
  assumes "governor quota_new keyed check_key cell fresh step remaining"
    and "replenishes minute fresh step remaining cap idle" and "budget r w s \<noteq> 0"
    and "sorted_wrt (\<le>) (times_for (s, k) before)"
    and "\<forall>t \<in> set (times_for (s, k) before). t + minute \<le> t'"
    and "times_for (s, k) later = replicate m t'"
  shows "answers_for (s, k) (before @ later)
      (run_checks (check_pair check_key) (rate_limiters_new quota_new keyed r w) (before @ later)) =
    answers_for (s, k) before
      (run_checks (check_pair check_key) (rate_limiters_new quota_new keyed r w) before) @
    replicate (min m (unat (budget r w s))) True @ replicate (m - unat (budget r w s)) False"
proof -
  let ?b = "budget r w s" and ?ts = "times_for (s, k) before"
  let ?c = "cell_after step (fresh ?b) ?ts"
  from assms(1) have laws: "\<And>t c. fst (step t c) \<longleftrightarrow> 0 < remaining t c"
      "\<And>t c. remaining t (snd (step t c)) = remaining t c - 1"
    and fresh: "remaining t' (fresh ?b) = unat ?b"
    by (auto simp: governor_def)
  have "remaining t' ?c = unat ?b"
  proof (cases "?ts = []")
    case True
    with fresh show ?thesis by simp
  next
    case False
    let ?first = "hd ?ts" and ?last = "last ?ts"
    from assms(4) False have range: "?first \<le> t \<and> t \<le> ?last" if "t \<in> set ?ts" for t
      using that by (metis sorted_wrt_bounds)
    have "idle ?first (fresh ?b)" "cap (fresh ?b) = unat ?b" using assms(2) by (simp_all add: replenishes_def)
    with cell_after_idle [OF assms(2,4) range] range [of ?first] False obtain l where
      "cap ?c = unat ?b" "l \<le> ?last" "idle l ?c" by auto
    moreover have "?last + minute \<le> t'" using False assms(5) by simp
    ultimately show ?thesis
      using assms(2) add_right_mono [of l ?last minute] unfolding replenishes_def by (metis order_trans)
  qed
  with run_cell_constant [where remaining = remaining, OF laws, of ?c m t'] show ?thesis
    by (simp add: answers_limited [OF assms(1,3)] times_for_append run_cell_append assms(6))
qed

lemma window_answers:
  assumes "governor quota_new keyed check_key cell fresh step remaining"
    and "refill_bounded 60 fresh step cap level" and "budget r w s \<noteq> 0"
    and "sorted_wrt (\<le>) (times_for (s, k) window)"
    and "\<forall>t \<in> set (times_for (s, k) window). start \<le> t \<and> t \<le> start + duration" and "0 \<le> duration"
  shows "\<exists>new. answers_for (s, k) (before @ window)
      (run_checks (check_pair check_key) (rate_limiters_new quota_new keyed r w) (before @ window)) =
      answers_for (s, k) before
        (run_checks (check_pair check_key) (rate_limiters_new quota_new keyed r w) before) @ new \<and>
    of_nat (length (filter (\<lambda>ok. ok) new)) \<le> of_nat (unat (budget r w s)) * (1 + duration / 60)"
proof -
  let ?b = "budget r w s"
  let ?c = "cell_after step (fresh ?b) (times_for (s, k) before)"
  have cap: "cap ?c = unat ?b" using cell_after_cap [OF assms(2)] assms(2) by (simp add: refill_bounded_def)
  have "of_nat (length (filter (\<lambda>ok. ok) (run_cell step ?c (times_for (s, k) window)))) \<le>
      level start ?c + of_nat (cap ?c) * (start + duration - start) / 60"
    by (rule accepted_paid [OF assms(2) _ assms(4)]) (use assms(5,6) in auto)
  also have "level start ?c \<le> of_nat (cap ?c)" using assms(2) by (simp add: refill_bounded_def)
  finally have "of_nat (length (filter (\<lambda>ok. ok) (run_cell step ?c (times_for (s, k) window)))) \<le>
      of_nat (unat ?b) * (1 + duration / 60)"
    by (simp add: cap algebra_simps)
  then show ?thesis
    by (simp add: answers_limited [OF assms(1,3)] times_for_append run_cell_append)
qed

section \<open>Main theorems\<close>

text \<open>
  C21. A used-up budget comes back: once a minute has passed since the last check that one principal
  made for one scope, the whole budget of that scope is there for it again. Of its next checks at one
  instant exactly the budget is accepted and the rest refused, whatever it and everybody else did
  before and do meanwhile.
\<close>

theorem check_recovers:
  fixes t' :: "'t::ordered_ab_semigroup_add"
  assumes "governor quota_new keyed check_key cell fresh step remaining"
    and "replenishes minute fresh step remaining cap idle" and "budget r w s \<noteq> 0"
    and "sorted_wrt (\<le>) (times_for (s, k) before)"
    and "\<forall>t \<in> set (times_for (s, k) before). t + minute \<le> t'"
    and "times_for (s, k) later = replicate m t'"
  shows "answers_for (s, k) (before @ later)
      (run_checks (check_pair check_key) (rate_limiters_new quota_new keyed r w) (before @ later)) =
    answers_for (s, k) before
      (run_checks (check_pair check_key) (rate_limiters_new quota_new keyed r w) before) @
    replicate (min m (unat (budget r w s))) True @ replicate (m - unat (budget r w s)) False"
  using assms by (rule recovered_answers)

definition ex_used_up :: "(rat \<times> scope \<times> string) list" where
  "ex_used_up = [(0, ScopeWrite, ''a''), (1, ScopeWrite, ''a'')]"

definition ex_next_minute :: "(rat \<times> scope \<times> string) list" where
  "ex_next_minute = [(61, ScopeWrite, ''b''), (61, ScopeWrite, ''a'')]"

theorem check_recovers_witness:
  "answers_for (ScopeWrite, ''a'') (ex_used_up @ ex_next_minute)
     (run_checks (check_pair gcra_check) (rate_limiters_new ex_quota ex_keyed 0 1)
       (ex_used_up @ ex_next_minute)) = [True, False, True]"
proof -
  have "answers_for (ScopeWrite, ''a'') ex_used_up
      (run_checks (check_pair gcra_check) (rate_limiters_new ex_quota ex_keyed 0 1) ex_used_up) =
    [True, False]"
    by (simp add: ex_used_up_def check_pair_def check_def rate_limiters_new_def build_def ex_quota_def
      ex_keyed_def gcra_check_def gcra_step_def gcra_level_def)
  moreover have "times_for (ScopeWrite, ''a'') ex_used_up = [0, 1]"
    "times_for (ScopeWrite, ''a'') ex_next_minute = replicate 1 61"
    by (simp_all add: ex_used_up_def ex_next_minute_def)
  ultimately show ?thesis
    using check_recovers [OF gcra_governor gcra_replenishes, where s = ScopeWrite and k = "''a''"
      and r = 0 and w = 1 and before = ex_used_up and later = ex_next_minute and m = 1 and t' = 61]
    by (simp add: budget_def)
qed

text \<open>
  C22. What passes in a window of time: whatever happened before, and whatever other principals and
  the other scope do, of the checks that one principal makes for one scope in a window of a given
  length at most the budget, and the share of it that is replenished in that time, is accepted. In
  any minute that is at most twice the budget.
\<close>

theorem check_window:
  assumes "governor quota_new keyed check_key cell fresh step remaining"
    and "refill_bounded 60 fresh step cap level" and "budget r w s \<noteq> 0"
    and "sorted_wrt (\<le>) (times_for (s, k) window)"
    and "\<forall>t \<in> set (times_for (s, k) window). start \<le> t \<and> t \<le> start + duration" and "0 \<le> duration"
  shows "\<exists>new. answers_for (s, k) (before @ window)
      (run_checks (check_pair check_key) (rate_limiters_new quota_new keyed r w) (before @ window)) =
      answers_for (s, k) before
        (run_checks (check_pair check_key) (rate_limiters_new quota_new keyed r w) before) @ new \<and>
    of_nat (length (filter (\<lambda>ok. ok) new)) \<le> of_nat (unat (budget r w s)) * (1 + duration / 60)"
  using assms by (rule window_answers)

text \<open>The bound is sharp: with a budget of two, four checks of one minute pass.\<close>

definition ex_minute :: "(rat \<times> scope \<times> string) list" where
  "ex_minute = map (\<lambda>t. (t, ScopeWrite, ''a'')) [0, 0, 30, 60, 60]"

lemma ex_minute_answers:
  "answers_for (ScopeWrite, ''a'') ex_minute
     (run_checks (check_pair gcra_check) (rate_limiters_new ex_quota ex_keyed 0 2) ex_minute) =
   [True, True, True, True, False]"
  by (simp add: ex_minute_def check_pair_def check_def rate_limiters_new_def build_def ex_quota_def
    ex_keyed_def gcra_check_def gcra_step_def gcra_level_def)

theorem check_window_witness:
  "answers_for (ScopeWrite, ''a'') ex_minute
     (run_checks (check_pair gcra_check) (rate_limiters_new ex_quota ex_keyed 0 2) ex_minute) =
     [True, True, True, True, False] \<and>
   of_nat (length (filter (\<lambda>ok. ok) (answers_for (ScopeWrite, ''a'') ex_minute
     (run_checks (check_pair gcra_check) (rate_limiters_new ex_quota ex_keyed 0 2) ex_minute)))) \<le>
     (of_nat (unat (budget 0 2 ScopeWrite)) * (1 + 60 / 60) :: rat)"
proof -
  have times: "times_for (ScopeWrite, ''a'') ex_minute = [0, 0, 30, 60, 60]" by (simp add: ex_minute_def)
  show ?thesis
    using check_window [OF gcra_governor gcra_refill, where s = ScopeWrite and k = "''a''" and r = 0 and w = 2
      and before = "[]" and window = ex_minute and start = 0 and duration = 60]
    by (simp add: times budget_def ex_minute_answers)
qed

end
