(* ===== verification/Iga_Config.thy ===== *)
theory Iga_Config
  imports Iga_Prelude
begin

text \<open>
  Configuration (\<^verbatim>\<open>src/src/config.rs\<close>): the document's sections as records, the defaults, and
  the resolution of \<^verbatim>\<open>env:NAME\<close> secret references. Reading the file, parsing TOML into the
  records and reading an environment variable are parameters. Socket addresses and paths are opaque
  text.
\<close>

section \<open>Sections\<close>

record upstream =
  up_agent_management :: string
  up_graph_node_admin :: "string option"
  up_graph_node_status :: "string option"

record tls =
  tls_enabled :: bool
  tls_cert :: "string option"
  tls_key :: "string option"
  tls_require_client_cert :: bool
  tls_client_ca :: "string option"

datatype auth_mode = ModeBearer | ModeJwt | ModeMtls

record mtls_mapping =
  mm_subject :: string
  mm_name :: string
  mm_scopes :: "string list"

record token_entry =
  te_name :: string
  te_token :: string
  te_scopes :: "string list"

record jwt_config =
  jc_issuer :: string
  jc_audience :: string
  jc_jwks_url :: "string option"
  jc_hs256_secret :: "string option"
  jc_scopes_claim :: string

record auth_config =
  au_mode :: auth_mode
  au_allow_anonymous_read :: bool
  au_tokens :: "token_entry list"
  au_jwt :: "jwt_config option"
  au_mtls :: "mtls_mapping list"

record override_rule =
  ov_field :: "string option"
  ov_operation :: "string option"
  ov_require_scopes :: "string list"

record policy =
  po_fail_closed_on_parse_error :: bool
  po_overrides :: "override_rule list"

record rate_limit =
  rl_write_per_minute :: u32
  rl_read_per_minute :: u32

record config =
  cf_listen :: string
  cf_metrics :: string
  cf_upstream :: upstream
  cf_tls :: tls
  cf_auth :: auth_config
  cf_policy :: policy
  cf_ratelimit :: rate_limit

section \<open>Defaults\<close>

definition default_scopes_claim :: string where
  "default_scopes_claim = ''scopes''"

definition default_true :: bool where
  "default_true = True"

definition default_write_per_minute :: u32 where
  "default_write_per_minute = 30"

definition default_read_per_minute :: u32 where
  "default_read_per_minute = 600"

definition tls_default :: tls where
  "tls_default =
     \<lparr>tls_enabled = False, tls_cert = None, tls_key = None, tls_require_client_cert = False,
      tls_client_ca = None\<rparr>"

definition policy_default :: policy where
  "policy_default = \<lparr>po_fail_closed_on_parse_error = True, po_overrides = []\<rparr>"

definition rate_limit_default :: rate_limit where
  "rate_limit_default =
     \<lparr>rl_write_per_minute = default_write_per_minute,
      rl_read_per_minute = default_read_per_minute\<rparr>"

section \<open>Loading\<close>

datatype config_error =
    Read string string
  | Parse string
  | MissingEnv string

fun config_error_display :: "config_error \<Rightarrow> string" where
  "config_error_display (Read path source) = ''failed to read config file '' @ path @ '': '' @ source"
| "config_error_display (Parse e) = ''failed to parse config: '' @ e"
| "config_error_display (MissingEnv name) =
     ''config references environment variable `'' @ name @ ''`, which is not set''"

text \<open>\<open>env\<close> is \<^verbatim>\<open>std::env::var\<close>, with its two error cases merged as the source does.\<close>

definition resolve_secret ::
  "(string \<Rightarrow> string option) \<Rightarrow> string \<Rightarrow> (string, config_error) result" where
  "resolve_secret env raw =
     (case strip_prefix ''env:'' raw of
        Some var \<Rightarrow> ok_or (env var) (MissingEnv var)
      | None \<Rightarrow> Ok raw)"

definition resolve_token ::
  "(string \<Rightarrow> string option) \<Rightarrow> token_entry \<Rightarrow> (token_entry, config_error) result" where
  "resolve_token env t = map_ok (\<lambda>v. t\<lparr>te_token := v\<rparr>) (resolve_secret env (te_token t))"

definition resolve_jwt ::
  "(string \<Rightarrow> string option) \<Rightarrow> jwt_config option \<Rightarrow> (jwt_config option, config_error) result" where
  "resolve_jwt env m =
     (case m of
        None \<Rightarrow> Ok None
      | Some jwt \<Rightarrow>
          (case jc_hs256_secret jwt of
             None \<Rightarrow> Ok (Some jwt)
           | Some secret \<Rightarrow>
               map_ok (\<lambda>v. Some (jwt\<lparr>jc_hs256_secret := Some v\<rparr>)) (resolve_secret env secret)))"

definition resolve_secrets ::
  "(string \<Rightarrow> string option) \<Rightarrow> config \<Rightarrow> (config, config_error) result" where
  "resolve_secrets env c =
     and_then (map_result (resolve_token env) (au_tokens (cf_auth c)))
       (\<lambda>tokens. map_ok
          (\<lambda>jwt. c\<lparr>cf_auth := (cf_auth c)\<lparr>au_tokens := tokens, au_jwt := jwt\<rparr>\<rparr>)
          (resolve_jwt env (au_jwt (cf_auth c))))"

definition from_toml_str ::
  "(string \<Rightarrow> (config, string) result) \<Rightarrow> (string \<Rightarrow> string option) \<Rightarrow> string \<Rightarrow>
   (config, config_error) result" where
  "from_toml_str toml env text =
     and_then (map_err Parse (toml text)) (\<lambda>c. resolve_secrets env c)"

definition config_load ::
  "(string \<Rightarrow> (string, string) result) \<Rightarrow> (string \<Rightarrow> (config, string) result) \<Rightarrow>
   (string \<Rightarrow> string option) \<Rightarrow> string \<Rightarrow> (config, config_error) result" where
  "config_load read_to_string toml env path =
     and_then (map_err (Read path) (read_to_string path))
       (\<lambda>text. and_then (map_err Parse (toml text)) (\<lambda>c. resolve_secrets env c))"

section \<open>Properties of secret resolution\<close>

text \<open>The secret values of a configuration in the order in which the loader resolves them.\<close>

definition secrets :: "config \<Rightarrow> string list" where
  "secrets c =
     map te_token (au_tokens (cf_auth c)) @
     (case au_jwt (cf_auth c) of
        None \<Rightarrow> []
      | Some jwt \<Rightarrow> (case jc_hs256_secret jwt of None \<Rightarrow> [] | Some s \<Rightarrow> [s]))"

text \<open>A configuration with every secret replaced by the same text: what is not secret.\<close>

definition redact :: "config \<Rightarrow> config" where
  "redact c =
     c\<lparr>cf_auth := (cf_auth c)
         \<lparr>au_tokens := map (\<lambda>t. t\<lparr>te_token := []\<rparr>) (au_tokens (cf_auth c)),
          au_jwt := map_option (\<lambda>j. j\<lparr>jc_hs256_secret := map_option (\<lambda>_. []) (jc_hs256_secret j)\<rparr>)
                      (au_jwt (cf_auth c))\<rparr>\<rparr>"

lemma resolve_secret_literal: "(\<forall>v. raw \<noteq> ''env:'' @ v) \<Longrightarrow> resolve_secret env raw = Ok raw"
  by (simp add: resolve_secret_def strip_prefix_None_iff [THEN iffD2])

lemma resolve_secret_env:
  "resolve_secret env (''env:'' @ v) = ok_or (env v) (MissingEnv v)"
  unfolding resolve_secret_def by (simp only: strip_prefix_append option.simps)

lemma resolve_secret_Ok_iff:
  "resolve_secret env raw = Ok v \<longleftrightarrow>
     (case strip_prefix ''env:'' raw of Some name \<Rightarrow> env name = Some v | None \<Rightarrow> v = raw)"
  by (auto simp: resolve_secret_def result_simps simp del: strip_prefix.simps split: option.splits)

lemma resolve_secret_Err_iff:
  "resolve_secret env raw = Err e \<longleftrightarrow>
     (\<exists>name. raw = ''env:'' @ name \<and> env name = None \<and> e = MissingEnv name)"
  unfolding resolve_secret_def
  by (auto simp: result_simps strip_prefix_Some_iff split: option.split)

lemma resolves_iff:
  "(\<exists>v. resolve_secret env raw = Ok v) \<longleftrightarrow>
     (\<forall>earlier. raw = ''env:'' @ earlier \<longrightarrow> env earlier \<noteq> None)"
proof -
  have "(\<forall>e. \<not> (\<exists>name. raw = p @ name \<and> env name = None \<and> e = MissingEnv name)) \<longleftrightarrow>
      (\<forall>earlier. raw = p @ earlier \<longrightarrow> env earlier \<noteq> None)" for p
    by auto
  then show ?thesis unfolding Ok_ex_iff resolve_secret_Err_iff .
qed

lemma resolve_tokens_secrets:
  "map_ok (map te_token) (map_result (resolve_token env) ts) =
     map_result (resolve_secret env) (map te_token ts)"
proof (induction ts)
  case Nil
  then show ?case by simp
next
  case (Cons t ts)
  show ?case
    by (cases "resolve_secret env (te_token t)"; cases "map_result (resolve_token env) ts")
      (simp_all add: resolve_token_def [of env t] Cons.IH [symmetric])
qed

text \<open>
  Resolution refines a traversal of the secrets alone: it fails where that traversal fails and
  otherwise installs its results.
\<close>

lemma resolve_secrets_refines:
  "map_ok secrets (resolve_secrets env c) = map_result (resolve_secret env) (secrets c)"
proof -
  let ?ts = "au_tokens (cf_auth c)" and ?j = "au_jwt (cf_auth c)"
  let ?js = "case ?j of None \<Rightarrow> [] | Some j \<Rightarrow> (case jc_hs256_secret j of None \<Rightarrow> [] | Some s \<Rightarrow> [s])"
  have "map_result (resolve_secret env) (secrets c) =
      and_then (map_ok (map te_token) (map_result (resolve_token env) ?ts))
        (\<lambda>us. map_ok (\<lambda>vs. us @ vs) (map_result (resolve_secret env) ?js))"
    by (simp add: secrets_def map_result_append resolve_tokens_secrets)
  moreover have "map_ok secrets (resolve_secrets env c) =
      and_then (map_ok (map te_token) (map_result (resolve_token env) ?ts))
        (\<lambda>us. map_ok (\<lambda>vs. us @ vs) (map_result (resolve_secret env) ?js))"
    by (cases "map_result (resolve_token env) ?ts")
      (auto simp: resolve_secrets_def resolve_jwt_def secrets_def map_ok_def
        split: option.split sum.split)
  ultimately show ?thesis by simp
qed

lemma resolve_tokens_redact:
  "list_all2 (\<lambda>t t'. resolve_token env t = Ok t') ts ts' \<Longrightarrow>
     map (\<lambda>t. t\<lparr>te_token := []\<rparr>) ts' = map (\<lambda>t. t\<lparr>te_token := []\<rparr>) ts"
  by (induction rule: list_all2_induct) (auto simp: resolve_token_def result_simps)

lemma resolve_secrets_redact: "resolve_secrets env c = Ok c' \<Longrightarrow> redact c' = redact c"
  by (auto simp: resolve_secrets_def resolve_jwt_def redact_def result_simps
      dest: resolve_tokens_redact split: option.splits)

section \<open>Main theorems\<close>

definition ex_config :: config where
  "ex_config =
     \<lparr>cf_listen = ''0.0.0.0:8400'', cf_metrics = ''0.0.0.0:7300'',
      cf_upstream = \<lparr>up_agent_management = ''http://127.0.0.1:18000/'',
                     up_graph_node_admin = Some ''http://127.0.0.1:8020'',
                     up_graph_node_status = None\<rparr>,
      cf_tls = tls_default,
      cf_auth = \<lparr>au_mode = ModeBearer, au_allow_anonymous_read = False,
                 au_tokens = [\<lparr>te_name = ''ci'', te_token = ''env:IGA_TOKEN_CI'', te_scopes = [''read'']\<rparr>,
                              \<lparr>te_name = ''operator'', te_token = ''literal'',
                               te_scopes = [''read'', ''write'']\<rparr>],
                 au_jwt = None, au_mtls = []\<rparr>,
      cf_policy = policy_default,
      cf_ratelimit = rate_limit_default\<rparr>"

text \<open>
  Loading resolves every secret and touches nothing else: a value of the form
  \<^verbatim>\<open>env:NAME\<close> becomes the value of that variable, any other value stays as it is, position
  by position, and the configuration with its secrets blanked out is unchanged.
\<close>

lemma resolve_secrets_effect:
  assumes "resolve_secrets env c = Ok c'"
  shows "redact c' = redact c \<and>
    list_all2 (\<lambda>raw v. case strip_prefix ''env:'' raw of Some name \<Rightarrow> env name = Some v | None \<Rightarrow> v = raw)
      (secrets c) (secrets c')"
proof
  show "redact c' = redact c" using assms by (rule resolve_secrets_redact)
  have "map_result (resolve_secret env) (secrets c) = Ok (secrets c')"
    using resolve_secrets_refines [of env c] assms by simp
  then show "list_all2 (\<lambda>raw v. case strip_prefix ''env:'' raw of Some name \<Rightarrow> env name = Some v | None \<Rightarrow> v = raw)
      (secrets c) (secrets c')"
    by (simp add: map_result_Ok_iff resolve_secret_Ok_iff del: strip_prefix.simps)
qed

text \<open>
  C35. Loading fails exactly at the first secret whose referenced variable is not set, and the error
  names that variable; a literal secret never fails.
\<close>

theorem resolve_secrets_fails_iff:
  "resolve_secrets env c = Err e \<longleftrightarrow>
     (\<exists>name. first_at (\<lambda>raw. \<forall>earlier. raw = ''env:'' @ earlier \<longrightarrow> env earlier \<noteq> None)
               (secrets c) (''env:'' @ name) \<and>
        env name = None \<and> e = MissingEnv name)"
proof -
  have "resolve_secrets env c = Err e \<longleftrightarrow> map_result (resolve_secret env) (secrets c) = Err e"
    using resolve_secrets_refines [of env c] by (metis map_ok_Err_iff)
  also have "\<dots> \<longleftrightarrow>
      (\<exists>raw. first_at (\<lambda>raw. \<exists>v. resolve_secret env raw = Ok v) (secrets c) raw \<and>
         resolve_secret env raw = Err e)"
    by (rule map_result_Err_iff)
  also have "\<dots> \<longleftrightarrow>
      (\<exists>name. first_at (\<lambda>raw. \<exists>v. resolve_secret env raw = Ok v) (secrets c) (''env:'' @ name) \<and>
        env name = None \<and> e = MissingEnv name)"
    unfolding resolve_secret_Err_iff by blast
  finally show ?thesis unfolding resolves_iff .
qed

theorem resolve_secrets_fails_iff_witness:
  "resolve_secrets (\<lambda>_. None) ex_config = Err (MissingEnv ''IGA_TOKEN_CI'')"
proof (rule resolve_secrets_fails_iff [THEN iffD2], intro exI conjI)
  show "first_at (\<lambda>raw. \<forall>earlier. raw = ''env:'' @ earlier \<longrightarrow> (None :: string option) \<noteq> None)
      (secrets ex_config) (''env:'' @ ''IGA_TOKEN_CI'')"
    by (simp add: ex_config_def secrets_def)
qed simp_all

end
