(* ===== verification/Iga_Principal.thy ===== *)
theory Iga_Principal
  imports Iga_Prelude
begin

text \<open>
  The authenticated identity (\<^verbatim>\<open>src/src/principal.rs\<close>): a display name and the set of granted
  scopes, with the one implication between scopes (\<^verbatim>\<open>write\<close> satisfies \<^verbatim>\<open>read\<close>).
\<close>

record principal =
  pr_name :: string
  pr_scopes :: "string set"

definition principal_new :: "string \<Rightarrow> string list \<Rightarrow> principal" where
  "principal_new name scopes = \<lparr>pr_name = name, pr_scopes = set scopes\<rparr>"

definition anonymous :: principal where
  "anonymous = principal_new ''anonymous'' [''read'']"

definition satisfies :: "principal \<Rightarrow> string \<Rightarrow> bool" where
  "satisfies p required =
     (if required \<in> pr_scopes p then True
      else required = ''read'' \<and> ''write'' \<in> pr_scopes p)"

lemma satisfies_iff:
  "satisfies p r \<longleftrightarrow> r \<in> pr_scopes p \<or> (r = ''read'' \<and> ''write'' \<in> pr_scopes p)"
  by (simp add: satisfies_def)

lemma satisfies_exact: "r \<noteq> ''read'' \<Longrightarrow> satisfies p r \<longleftrightarrow> r \<in> pr_scopes p"
  by (simp add: satisfies_iff)

lemma satisfies_write_read: "satisfies p ''write'' \<Longrightarrow> satisfies p ''read''"
  by (simp add: satisfies_iff)

lemma satisfies_mono:
  "pr_scopes p \<subseteq> pr_scopes q \<Longrightarrow> satisfies p r \<Longrightarrow> satisfies q r"
  by (auto simp: satisfies_iff)

lemma anonymous_satisfies: "satisfies anonymous r \<longleftrightarrow> r = ''read''"
  by (auto simp: satisfies_iff anonymous_def principal_new_def)

end
