(* ===== verification/Iga_Json.thy ===== *)
theory Iga_Json
  imports Iga_Prelude
begin

text \<open>
  The JSON values the gateway inspects. The type is \<^verbatim>\<open>serde_json::Value\<close> with its six
  constructors; a number is kept as its literal text, and an object as the association list of its
  members (keys of a \<^verbatim>\<open>serde_json::Map\<close> are distinct). Only the accessors that the sources
  call are given. Parsing and printing JSON text is the business of \<^verbatim>\<open>serde_json\<close> and stays
  a parameter of the definitions that use it.
\<close>

datatype json =
    JNull
  | JBool bool
  | JNumber string
  | JString string
  | JArray "json list"
  | JObject "(string \<times> json) list"

fun json_get :: "json \<Rightarrow> string \<Rightarrow> json option" where
  "json_get (JObject members) key = map_of members key"
| "json_get _ key = None"

fun as_str :: "json \<Rightarrow> string option" where
  "as_str (JString s) = Some s"
| "as_str _ = None"

fun as_object :: "json \<Rightarrow> (string \<times> json) list option" where
  "as_object (JObject members) = Some members"
| "as_object _ = None"

text \<open>The value that \<^verbatim>\<open>Map::remove\<close> returns; the map itself is dropped by the caller.\<close>

definition map_remove :: "(string \<times> json) list \<Rightarrow> string \<Rightarrow> json option" where
  "map_remove members key = map_of members key"

lemma as_str_Some_iff: "as_str v = Some s \<longleftrightarrow> v = JString s"
  by (cases v) auto

lemma as_object_Some_iff: "as_object v = Some ms \<longleftrightarrow> v = JObject ms"
  by (cases v) auto

text \<open>Decimal text of a number, as \<^verbatim>\<open>to_string\<close> and the JSON printer give it.\<close>

fun dec :: "nat \<Rightarrow> string" where
  "dec n = (if n < 10 then [char_of (48 + n)] else dec (n div 10) @ [char_of (48 + n mod 10)])"

declare dec.simps [simp del]

definition undec :: "string \<Rightarrow> nat" where
  "undec s = foldl (\<lambda>a c. 10 * a + (of_char c - 48)) 0 s"

lemma undec_dec: "undec (dec n) = n"
proof (induction n rule: dec.induct)
  case (1 n)
  have digit: "(of_char (char_of (48 + d)) :: nat) - 48 = d" if "d < 10" for d :: nat
    using that by simp
  show ?case
  proof (cases "n < 10")
    case True
    with digit [of n] show ?thesis by (simp add: dec.simps [of n] undec_def)
  next
    case False
    with 1 digit [of "n mod 10"] show ?thesis by (simp add: dec.simps [of n] undec_def)
  qed
qed

lemma dec_inject [simp]: "dec m = dec n \<longleftrightarrow> m = n"
  by (metis undec_dec)

end
