(* ===== verification/Iga_Auth.thy ===== *)
theory Iga_Auth
  imports Iga_Config Iga_Principal Iga_Json
begin

text \<open>
  Authentication (\<^verbatim>\<open>src/src/auth/\<close>): the three backends, static bearer tokens
  (\<^verbatim>\<open>token.rs\<close>), client certificates (\<^verbatim>\<open>mtls.rs\<close>) and JSON web tokens (\<^verbatim>\<open>jwt.rs\<close>),
  and the authenticator that selects one and decides about missing credentials (\<^verbatim>\<open>mod.rs\<close>).

  Parameters: \<open>ct_eq\<close> is \<^verbatim>\<open>subtle\<close>'s constant-time comparison of two byte slices;
  \<open>decode\<close> is \<^verbatim>\<open>jsonwebtoken::decode\<close>, giving the claims or the text of its error;
  \<open>from_secret\<close> and \<open>from_jwk\<close> build its decoding keys, whose type is a parameter.
\<close>

section \<open>Errors and credentials\<close>

datatype auth_error =
    MissingCredentials
  | InvalidToken
  | InvalidClientCert
  | Jwt string
  | Misconfigured string

fun auth_error_display :: "auth_error \<Rightarrow> string" where
  "auth_error_display MissingCredentials = ''no credentials presented''"
| "auth_error_display InvalidToken = ''invalid or unknown token''"
| "auth_error_display InvalidClientCert = ''client certificate not recognised''"
| "auth_error_display (Jwt e) = ''JWT verification failed: '' @ e"
| "auth_error_display (Misconfigured e) = ''backend not configured: '' @ e"

record client_cert =
  cc_subject_cn :: "string option"
  cc_sans :: "string list"

record credentials =
  cr_bearer :: "string option"
  cr_client_cert :: "client_cert option"

section \<open>Static bearer tokens\<close>

record token_record =
  tr_name :: string
  tr_token :: string
  tr_scopes :: "string list"

record static_token_backend =
  st_tokens :: "token_record list"

definition static_token_new :: "token_entry list \<Rightarrow> static_token_backend" where
  "static_token_new entries =
     \<lparr>st_tokens = map (\<lambda>e. \<lparr>tr_name = te_name e, tr_token = te_token e, tr_scopes = te_scopes e\<rparr>) entries\<rparr>"

text \<open>The loop visits every record; a later match replaces an earlier one.\<close>

fun static_token_scan ::
  "(bytes \<Rightarrow> bytes \<Rightarrow> bool) \<Rightarrow> string \<Rightarrow> token_record list \<Rightarrow> token_record option \<Rightarrow> token_record option" where
  "static_token_scan ct_eq presented [] matched = matched"
| "static_token_scan ct_eq presented (r # rs) matched =
     static_token_scan ct_eq presented rs (if ct_eq (tr_token r) presented then Some r else matched)"

definition static_token_verify ::
  "(bytes \<Rightarrow> bytes \<Rightarrow> bool) \<Rightarrow> static_token_backend \<Rightarrow> string \<Rightarrow> (principal, auth_error) result" where
  "static_token_verify ct_eq backend presented =
     ok_or (map_option (\<lambda>r. principal_new (tr_name r) (tr_scopes r))
              (static_token_scan ct_eq presented (st_tokens backend) None))
       InvalidToken"

section \<open>Client certificates\<close>

record mapping_record =
  mp_subject :: string
  mp_name :: string
  mp_scopes :: "string list"

record mtls_backend =
  mb_mappings :: "mapping_record list"

definition mtls_new :: "mtls_mapping list \<Rightarrow> mtls_backend" where
  "mtls_new ms =
     \<lparr>mb_mappings = map (\<lambda>m. \<lparr>mp_subject = mm_subject m, mp_name = mm_name m, mp_scopes = mm_scopes m\<rparr>) ms\<rparr>"

definition cert_matches :: "client_cert \<Rightarrow> mapping_record \<Rightarrow> bool" where
  "cert_matches cert m =
     (let cn_match = (cc_subject_cn cert = Some (mp_subject m));
          san_match = list_ex (\<lambda>s. s = mp_subject m) (cc_sans cert)
      in cn_match \<or> san_match)"

fun mtls_scan :: "client_cert \<Rightarrow> mapping_record list \<Rightarrow> (principal, auth_error) result" where
  "mtls_scan cert [] = Err InvalidClientCert"
| "mtls_scan cert (m # ms) =
     (if cert_matches cert m then Ok (principal_new (mp_name m) (mp_scopes m)) else mtls_scan cert ms)"

definition mtls_verify :: "mtls_backend \<Rightarrow> client_cert \<Rightarrow> (principal, auth_error) result" where
  "mtls_verify backend cert = mtls_scan cert (mb_mappings backend)"

section \<open>JSON web tokens\<close>

datatype algorithm =
    HS256 | HS384 | HS512 | ES256 | ES384 | RS256 | RS384 | RS512 | PS256 | PS384 | PS512 | EdDSA

text \<open>The advertised algorithm of a JWK; every algorithm the source does not list is one case.\<close>

datatype key_algorithm =
    KHS256 | KHS384 | KHS512 | KES256 | KES384 | KRS256 | KRS384 | KRS512 | KPS256 | KPS384 | KPS512
  | KEdDSA | KOther

text \<open>
  The settings that the source gives to \<^verbatim>\<open>jsonwebtoken::Validation\<close>: the algorithm of its
  constructor and the fields set afterwards.
\<close>

record validation =
  va_algorithm :: algorithm
  va_issuer :: "string list"
  va_audience :: "string list"
  va_validate_nbf :: bool

record 'k jwt_backend =
  jb_keys :: "'k list"
  jb_validation :: validation
  jb_scopes_claim :: string

record 'j jwk =
  jk_key_algorithm :: "key_algorithm option"
  jk_material :: 'j

definition build_validation :: "jwt_config \<Rightarrow> algorithm \<Rightarrow> validation" where
  "build_validation cfg alg =
     \<lparr>va_algorithm = alg, va_issuer = [jc_issuer cfg], va_audience = [jc_audience cfg],
      va_validate_nbf = True\<rparr>"

definition jwt_from_config ::
  "(bytes \<Rightarrow> 'k) \<Rightarrow> jwt_config \<Rightarrow> ('k jwt_backend, auth_error) result" where
  "jwt_from_config from_secret cfg =
     and_then
       (ok_or (jc_hs256_secret cfg)
          (Misconfigured ''JWT backend needs hs256_secret (JWKS requires async startup)''))
       (\<lambda>secret.
          Ok \<lparr>jb_keys = [from_secret secret],
              jb_validation = build_validation cfg HS256,
              jb_scopes_claim = jc_scopes_claim cfg\<rparr>)"

definition jwt_with_keys :: "jwt_config \<Rightarrow> 'k list \<Rightarrow> algorithm \<Rightarrow> 'k jwt_backend" where
  "jwt_with_keys cfg keys alg =
     \<lparr>jb_keys = keys, jb_validation = build_validation cfg alg, jb_scopes_claim = jc_scopes_claim cfg\<rparr>"

fun key_algorithm_to_algorithm :: "key_algorithm \<Rightarrow> algorithm option" where
  "key_algorithm_to_algorithm KHS256 = Some HS256"
| "key_algorithm_to_algorithm KHS384 = Some HS384"
| "key_algorithm_to_algorithm KHS512 = Some HS512"
| "key_algorithm_to_algorithm KES256 = Some ES256"
| "key_algorithm_to_algorithm KES384 = Some ES384"
| "key_algorithm_to_algorithm KRS256 = Some RS256"
| "key_algorithm_to_algorithm KRS384 = Some RS384"
| "key_algorithm_to_algorithm KRS512 = Some RS512"
| "key_algorithm_to_algorithm KPS256 = Some PS256"
| "key_algorithm_to_algorithm KPS384 = Some PS384"
| "key_algorithm_to_algorithm KPS512 = Some PS512"
| "key_algorithm_to_algorithm KEdDSA = Some EdDSA"
| "key_algorithm_to_algorithm KOther = None"

text \<open>The loop over the key set, with the keys so far and the algorithm if one was found.\<close>

fun jwks_scan ::
  "('j jwk \<Rightarrow> ('k, string) result) \<Rightarrow> 'j jwk list \<Rightarrow> 'k list \<Rightarrow> algorithm option \<Rightarrow>
   ('k list \<times> algorithm option, auth_error) result" where
  "jwks_scan from_jwk [] keys alg = Ok (keys, alg)"
| "jwks_scan from_jwk (jwk # jwks) keys alg =
     (case from_jwk jwk of
        Inl e \<Rightarrow> Err (Jwt (''invalid JWK: '' @ e))
      | Inr key \<Rightarrow>
          jwks_scan from_jwk jwks (keys @ [key])
            (if alg = None then Option.bind (jk_key_algorithm jwk) key_algorithm_to_algorithm else alg))"

definition keys_from_jwks ::
  "('j jwk \<Rightarrow> ('k, string) result) \<Rightarrow> 'j jwk list \<Rightarrow> ('k list \<times> algorithm, auth_error) result" where
  "keys_from_jwks from_jwk set_keys =
     (if set_keys = [] then Err (Jwt ''JWKS contained no keys'')
      else
        and_then (jwks_scan from_jwk set_keys [] None)
          (\<lambda>(keys, alg).
             and_then (ok_or alg (Jwt (''JWKS keys do not advertise an '' @ [CHR 0x27] @ ''alg'' @ [CHR 0x27])))
               (\<lambda>a. Ok (keys, a))))"

definition jwt_from_jwks ::
  "('j jwk \<Rightarrow> ('k, string) result) \<Rightarrow> jwt_config \<Rightarrow> 'j jwk list \<Rightarrow> ('k jwt_backend, auth_error) result" where
  "jwt_from_jwks from_jwk cfg set_keys =
     map_ok (\<lambda>(keys, alg). jwt_with_keys cfg keys alg) (keys_from_jwks from_jwk set_keys)"

text \<open>Fetching a key set: \<open>get\<close> sends the request, \<open>parse\<close> reads the body of the response.\<close>

definition fetch_jwks ::
  "(string \<Rightarrow> ('r, string) result) \<Rightarrow> ('r \<Rightarrow> ('j jwk list, string) result) \<Rightarrow> string \<Rightarrow>
   ('j jwk list, auth_error) result" where
  "fetch_jwks get parse url =
     and_then (map_err (\<lambda>e. Jwt (''fetching JWKS from '' @ url @ '': '' @ e)) (get url))
       (\<lambda>response. map_err (\<lambda>e. Jwt (''parsing JWKS from '' @ url @ '': '' @ e)) (parse response))"

definition extract_scopes :: "json \<Rightarrow> string \<Rightarrow> string list" where
  "extract_scopes claims claim =
     (case json_get claims claim of
        Some (JArray items) \<Rightarrow> List.map_filter as_str items
      | Some (JString s) \<Rightarrow> split_whitespace s
      | _ \<Rightarrow> [])"

definition principal_from_claims :: "'k jwt_backend \<Rightarrow> json \<Rightarrow> principal" where
  "principal_from_claims backend claims =
     (let name = (case Option.bind (json_get claims ''sub'') as_str of Some s \<Rightarrow> s | None \<Rightarrow> ''jwt'');
          scopes = extract_scopes claims (jb_scopes_claim backend)
      in principal_new name scopes)"

fun jwt_scan ::
  "(string \<Rightarrow> 'k \<Rightarrow> validation \<Rightarrow> (json, string) result) \<Rightarrow> 'k jwt_backend \<Rightarrow> string \<Rightarrow> 'k list \<Rightarrow>
   string option \<Rightarrow> (principal, auth_error) result" where
  "jwt_scan decode backend token [] last_err =
     Err (Jwt (case last_err of Some e \<Rightarrow> e | None \<Rightarrow> ''no verification keys configured''))"
| "jwt_scan decode backend token (key # keys) last_err =
     (case decode token key (jb_validation backend) of
        Inr claims \<Rightarrow> Ok (principal_from_claims backend claims)
      | Inl e \<Rightarrow> jwt_scan decode backend token keys (Some e))"

definition jwt_verify ::
  "(string \<Rightarrow> 'k \<Rightarrow> validation \<Rightarrow> (json, string) result) \<Rightarrow> 'k jwt_backend \<Rightarrow> string \<Rightarrow>
   (principal, auth_error) result" where
  "jwt_verify decode backend token = jwt_scan decode backend token (jb_keys backend) None"

section \<open>The authenticator\<close>

datatype 'k authenticator =
    AuthBearer static_token_backend
  | AuthJwt "'k jwt_backend"
  | AuthMtls mtls_backend

definition authenticator_from_config ::
  "(bytes \<Rightarrow> 'k) \<Rightarrow> auth_config \<Rightarrow> ('k authenticator, auth_error) result" where
  "authenticator_from_config from_secret auth =
     (case au_mode auth of
        ModeBearer \<Rightarrow> Ok (AuthBearer (static_token_new (au_tokens auth)))
      | ModeMtls \<Rightarrow> Ok (AuthMtls (mtls_new (au_mtls auth)))
      | ModeJwt \<Rightarrow>
          and_then (ok_or (au_jwt auth) (Misconfigured ''mode = \"jwt\" but [auth.jwt] is absent''))
            (\<lambda>jwt. and_then (jwt_from_config from_secret jwt) (\<lambda>backend. Ok (AuthJwt backend))))"

definition bearer_of :: "credentials \<Rightarrow> (string, auth_error) result" where
  "bearer_of creds = ok_or (cr_bearer creds) MissingCredentials"

definition anonymous_fallback ::
  "bool \<Rightarrow> (principal, auth_error) result \<Rightarrow> (principal, auth_error) result" where
  "anonymous_fallback allow_anonymous_read r =
     (case r of
        Inl MissingCredentials \<Rightarrow> if allow_anonymous_read then Ok anonymous else r
      | _ \<Rightarrow> r)"

definition authenticate ::
  "(bytes \<Rightarrow> bytes \<Rightarrow> bool) \<Rightarrow> (string \<Rightarrow> 'k \<Rightarrow> validation \<Rightarrow> (json, string) result) \<Rightarrow>
   'k authenticator \<Rightarrow> credentials \<Rightarrow> bool \<Rightarrow> (principal, auth_error) result" where
  "authenticate ct_eq decode auth creds allow_anonymous_read =
     anonymous_fallback allow_anonymous_read
       (case auth of
          AuthBearer b \<Rightarrow> and_then (bearer_of creds) (static_token_verify ct_eq b)
        | AuthJwt j \<Rightarrow> and_then (bearer_of creds) (jwt_verify decode j)
        | AuthMtls m \<Rightarrow> and_then (ok_or (cr_client_cert creds) MissingCredentials) (mtls_verify m))"

section \<open>The contract of a backend\<close>

text \<open>
  What the authenticator relies on: a backend that was given a credential never reports the
  credential as missing. Under that contract the anonymous principal is reachable only without a
  credential, which is the promise of \<^verbatim>\<open>mod.rs\<close>.
\<close>

lemma anonymous_fallback_missing:
  "anonymous_fallback allow (Err MissingCredentials) =
     (if allow then Ok anonymous else Err MissingCredentials)"
  by (simp add: anonymous_fallback_def)

locale auth_backend =
  fixes verify :: "'c \<Rightarrow> (principal, auth_error) result"
  assumes never_missing: "verify c \<noteq> Err MissingCredentials"
begin

lemma fallback_present: "anonymous_fallback allow (verify c) = verify c"
  using never_missing [of c]
  by (auto simp: anonymous_fallback_def split: sum.split auth_error.split)

lemma fallback_eq:
  "anonymous_fallback allow (and_then (ok_or cred MissingCredentials) verify) =
     (case map_option verify cred of
        Some v \<Rightarrow> v
      | None \<Rightarrow> if allow then Ok anonymous else Err MissingCredentials)"
  by (cases cred) (simp_all add: fallback_present anonymous_fallback_missing)

end

lemma static_token_scan_None:
  "static_token_scan ct_eq t rs m = None \<longleftrightarrow> m = None \<and> (\<forall>r \<in> set rs. \<not> ct_eq (tr_token r) t)"
  by (induction rs arbitrary: m) auto

lemma static_token_verify_Err:
  "static_token_verify ct_eq b t = Err e \<longleftrightarrow>
     e = InvalidToken \<and> (\<forall>r \<in> set (st_tokens b). \<not> ct_eq (tr_token r) t)"
  by (auto simp: static_token_verify_def result_simps static_token_scan_None)

lemma mtls_scan_Err: "mtls_scan cert ms = Err e \<longleftrightarrow> e = InvalidClientCert \<and> (\<forall>m \<in> set ms. \<not> cert_matches cert m)"
  by (induction ms) auto

lemma jwt_scan_Err:
  "jwt_scan decode b t ks l = Err e \<longleftrightarrow>
     (\<forall>k \<in> set ks. \<exists>d. decode t k (jb_validation b) = Err d) \<and>
     (if ks = [] then e = Jwt (case l of Some d \<Rightarrow> d | None \<Rightarrow> ''no verification keys configured'')
      else (\<exists>d. decode t (last ks) (jb_validation b) = Err d \<and> e = Jwt d))"
proof (induction ks arbitrary: l)
  case Nil
  then show ?case by auto
next
  case (Cons k ks)
  show ?case
  proof (cases "decode t k (jb_validation b)")
    case (Inl d)
    with Cons.IH [of "Some d"] show ?thesis by (cases "ks = []") auto
  next
    case (Inr claims)
    then show ?thesis by auto
  qed
qed

lemma jwt_scan_Ok:
  "jwt_scan decode b t ks l = Ok p \<longleftrightarrow>
     (\<exists>k claims. first_at (\<lambda>k. \<exists>d. decode t k (jb_validation b) = Err d) ks k \<and>
        decode t k (jb_validation b) = Ok claims \<and> p = principal_from_claims b claims)"
proof (induction ks arbitrary: l)
  case Nil
  then show ?case by simp
next
  case (Cons k ks)
  then show ?case by (cases "decode t k (jb_validation b)") auto
qed

lemma mtls_scan_Ok:
  "mtls_scan cert ms = Ok p \<longleftrightarrow>
     (\<exists>m. first_at (\<lambda>m. \<not> cert_matches cert m) ms m \<and> cert_matches cert m \<and>
        p = principal_new (mp_name m) (mp_scopes m))"
  by (induction ms) auto

lemma static_token_scan_Some:
  "static_token_scan ct_eq t rs None = Some r \<longleftrightarrow>
     last_at (\<lambda>r. \<not> ct_eq (tr_token r) t) rs r \<and> ct_eq (tr_token r) t"
proof -
  have step: "static_token_scan ct_eq t (xs @ [x]) m =
      (if ct_eq (tr_token x) t then Some x else static_token_scan ct_eq t xs m)" for xs x m
    by (induction xs arbitrary: m) simp_all
  show ?thesis
    by (induction rs rule: rev_induct) (auto simp: last_at_rev step)
qed

interpretation static_token: auth_backend "static_token_verify ct_eq b" for ct_eq b
  by unfold_locales (simp add: static_token_verify_Err)

interpretation mtls: auth_backend "mtls_verify b" for b
  by unfold_locales (simp add: mtls_verify_def mtls_scan_Err)

interpretation jwt: auth_backend "jwt_verify decode b" for decode b
  by unfold_locales (simp add: jwt_verify_def jwt_scan_Err)

section \<open>Lemmas for the key set and the scopes claim\<close>

definition advertised :: "'j jwk \<Rightarrow> algorithm option" where
  "advertised jwk = Option.bind (jk_key_algorithm jwk) key_algorithm_to_algorithm"

lemma jwks_scan_Ok:
  "jwks_scan from_jwk js keys alg = Ok (ks, a) \<longleftrightarrow>
     (\<exists>new. list_all2 (\<lambda>j k. from_jwk j = Ok k) js new \<and> ks = keys @ new \<and>
        (case alg of
           Some x \<Rightarrow> a = Some x
         | None \<Rightarrow>
             (a = None \<and> (\<forall>j \<in> set js. advertised j = None)) \<or>
             (\<exists>j. first_at (\<lambda>j. advertised j = None) js j \<and> advertised j \<noteq> None \<and> a = advertised j)))"
proof (induction js arbitrary: keys alg)
  case Nil
  then show ?case by (auto split: option.splits)
next
  case (Cons j js)
  show ?case
  proof (cases "from_jwk j")
    case (Inl e)
    then show ?thesis by (auto simp: list_all2_Cons1)
  next
    case (Inr k)
    show ?thesis
    proof (cases alg)
      case (Some x)
      with Inr show ?thesis by (auto simp: Cons.IH list_all2_Cons1)
    next
      case None
      with Inr show ?thesis
        by (cases "advertised j")
          (auto simp: Cons.IH list_all2_Cons1 advertised_def [symmetric])
    qed
  qed
qed

lemma map_filter_as_str: "List.map_filter as_str (map JString ts) = ts"
  by (induction ts) (simp_all add: map_filter_simps)

lemma cert_matches_iff:
  "cert_matches cert m \<longleftrightarrow>
     cc_subject_cn cert = Some (mp_subject m) \<or> mp_subject m \<in> set (cc_sans cert)"
  by (auto simp: cert_matches_def list_ex_iff)

text \<open>The verdict of the active backend on the credential it looks at, if one was presented.\<close>

definition backend_verdict ::
  "(bytes \<Rightarrow> bytes \<Rightarrow> bool) \<Rightarrow> (string \<Rightarrow> 'k \<Rightarrow> validation \<Rightarrow> (json, string) result) \<Rightarrow>
   'k authenticator \<Rightarrow> credentials \<Rightarrow> (principal, auth_error) result option" where
  "backend_verdict ct_eq decode auth creds =
     (case auth of
        AuthBearer b \<Rightarrow> map_option (static_token_verify ct_eq b) (cr_bearer creds)
      | AuthJwt j \<Rightarrow> map_option (jwt_verify decode j) (cr_bearer creds)
      | AuthMtls m \<Rightarrow> map_option (mtls_verify m) (cr_client_cert creds))"

section \<open>Main theorems\<close>

text \<open>
  C16. Authentication is the verdict of the configured backend whenever a credential of its kind was
  presented, whatever the anonymous switch says: a bad credential stays an error. Only an absent
  credential can become the anonymous principal, and only with the switch on.
\<close>

theorem authenticate_exact:
  "authenticate ct_eq decode auth creds allow_anonymous_read =
     (case backend_verdict ct_eq decode auth creds of
        Some verdict \<Rightarrow> verdict
      | None \<Rightarrow> if allow_anonymous_read then Ok anonymous else Err MissingCredentials)"
  by (cases auth)
    (simp_all add: authenticate_def backend_verdict_def bearer_of_def
      static_token.fallback_eq jwt.fallback_eq mtls.fallback_eq)

text \<open>
  C33. With a comparison that decides equality, a bearer token is accepted exactly when it is a
  configured token, and it yields the name and scopes of the last record with that token; every
  other token is rejected as unknown.
\<close>

theorem static_token_verify_exact:
  assumes "\<And>a b. ct_eq a b \<longleftrightarrow> a = b"
  shows "(static_token_verify ct_eq backend t = Ok p \<longleftrightarrow>
      (\<exists>r. last_at (\<lambda>r. tr_token r \<noteq> t) (st_tokens backend) r \<and> tr_token r = t \<and>
         p = principal_new (tr_name r) (tr_scopes r))) \<and>
    (static_token_verify ct_eq backend t = Err e \<longleftrightarrow>
      e = InvalidToken \<and> t \<notin> tr_token ` set (st_tokens backend))"
  using assms
  by (auto simp: static_token_verify_def result_simps static_token_scan_Some static_token_scan_None)

definition ex_tokens :: static_token_backend where
  "ex_tokens =
     \<lparr>st_tokens = [\<lparr>tr_name = ''ci'', tr_token = ''t1'', tr_scopes = [''read'']\<rparr>,
                   \<lparr>tr_name = ''op'', tr_token = ''t2'', tr_scopes = [''read'', ''write'']\<rparr>,
                   \<lparr>tr_name = ''op2'', tr_token = ''t1'', tr_scopes = [''write'']\<rparr>]\<rparr>"

theorem static_token_verify_exact_witness:
  "static_token_verify (=) ex_tokens ''t1'' = Ok (principal_new ''op2'' [''write'']) \<and>
   static_token_verify (=) ex_tokens ''t3'' = Err InvalidToken"
proof
  show "static_token_verify (=) ex_tokens ''t1'' = Ok (principal_new ''op2'' [''write''])"
    by (rule static_token_verify_exact [THEN conjunct1, THEN iffD2])
      (auto simp: ex_tokens_def last_at_rev)
  show "static_token_verify (=) ex_tokens ''t3'' = Err InvalidToken"
    by (rule static_token_verify_exact [THEN conjunct2, THEN iffD2]) (auto simp: ex_tokens_def)
qed

text \<open>
  A verified certificate is mapped by the first configured subject that equals its common name
  or one of its alternative names; a certificate that matches no subject is rejected.
\<close>

lemma mtls_verify_exact:
  "(mtls_verify backend cert = Ok p \<longleftrightarrow>
      (\<exists>m. first_at (\<lambda>m. \<not> cert_matches cert m) (mb_mappings backend) m \<and>
         (cc_subject_cn cert = Some (mp_subject m) \<or> mp_subject m \<in> set (cc_sans cert)) \<and>
         p = principal_new (mp_name m) (mp_scopes m))) \<and>
   (mtls_verify backend cert = Err e \<longleftrightarrow>
      e = InvalidClientCert \<and> \<not> (\<exists>m \<in> set (mb_mappings backend). cert_matches cert m))"
  by (auto simp: mtls_verify_def mtls_scan_Ok mtls_scan_Err cert_matches_iff)

text \<open>
  C32. A JSON web token is accepted exactly when some configured key verifies it, and the principal
  comes from the claims that the first such key yields. A token that no key verifies is rejected
  with the error of the last key, and a backend without keys rejects everything.
\<close>

theorem jwt_verify_exact:
  "(jwt_verify decode backend token = Ok p \<longleftrightarrow>
      (\<exists>key claims.
         first_at (\<lambda>k. \<exists>d. decode token k (jb_validation backend) = Err d) (jb_keys backend) key \<and>
         decode token key (jb_validation backend) = Ok claims \<and>
         p = principal_from_claims backend claims)) \<and>
   (jwt_verify decode backend token = Err e \<longleftrightarrow>
      \<not> (\<exists>key \<in> set (jb_keys backend). \<exists>claims. decode token key (jb_validation backend) = Ok claims) \<and>
      (if jb_keys backend = [] then e = Jwt ''no verification keys configured''
       else \<exists>d. decode token (last (jb_keys backend)) (jb_validation backend) = Err d \<and> e = Jwt d))"
proof -
  have "(\<forall>k \<in> set ks. \<exists>d. decode token k v = Err d) \<longleftrightarrow>
      \<not> (\<exists>k \<in> set ks. \<exists>claims. decode token k v = Ok claims)" for ks v
    by (metis Ok_ex_iff sum.exhaust)
  then show ?thesis by (simp add: jwt_verify_def jwt_scan_Ok jwt_scan_Err)
qed

text \<open>
  C34. A key set is accepted exactly when every key converts and some key advertises a supported
  algorithm. The algorithm of the first such key then verifies with all keys, so a set whose first
  key advertises none, or whose keys belong to different families, is accepted.
\<close>

theorem keys_from_jwks_exact:
  "keys_from_jwks from_jwk js = Ok (ks, alg) \<longleftrightarrow>
     list_all2 (\<lambda>j k. from_jwk j = Ok k) js ks \<and>
     (\<exists>j. first_at (\<lambda>j. Option.bind (jk_key_algorithm j) key_algorithm_to_algorithm = None) js j \<and>
        Option.bind (jk_key_algorithm j) key_algorithm_to_algorithm = Some alg)"
proof -
  have "keys_from_jwks from_jwk js = Ok (ks, alg) \<longleftrightarrow>
      js \<noteq> [] \<and> jwks_scan from_jwk js [] None = Ok (ks, Some alg)"
    by (auto simp: keys_from_jwks_def result_simps)
  also have "\<dots> \<longleftrightarrow> list_all2 (\<lambda>j k. from_jwk j = Ok k) js ks \<and>
      (\<exists>j. first_at (\<lambda>j. advertised j = None) js j \<and> advertised j = Some alg)"
    unfolding jwks_scan_Ok by (cases js) auto
  finally show ?thesis by (simp add: advertised_def)
qed

text \<open>
  The two forms of the scopes claim agree: a space-delimited string of scopes and the array of
  the same scopes yield that list of scopes, for scopes that are not empty and contain no white
  space.
\<close>

lemma extract_scopes_roundtrip:
  assumes "\<And>t. t \<in> set ts \<Longrightarrow> t \<noteq> [] \<and> ws_free t"
  shows "extract_scopes (JObject [(claim, JString (join '' '' ts))]) claim = ts \<and>
    extract_scopes (JObject [(claim, JArray (map JString ts))]) claim = ts"
  using assms by (simp add: extract_scopes_def split_whitespace_join map_filter_as_str)

end
