(* ===== verification/Iga_Authz.thy ===== *)
theory Iga_Authz
  imports Iga_Classify Iga_Config Iga_Principal
begin

text \<open>
  Authorization (\<^verbatim>\<open>src/src/authz.rs\<close>): the scopes a classified request requires, collected in
  an ordered set from the base scope and the matching policy overrides, and the decision whether a
  principal holds all of them.
\<close>

section \<open>Operations\<close>

record denied =
  dn_required :: "string list"
  dn_missing :: "string list"

definition denied_display :: "denied \<Rightarrow> string" where
  "denied_display d =
     ''insufficient scope: missing ['' @ join '', '' (dn_missing d) @ ''] (required ['' @
     join '', '' (dn_required d) @ ''])''"

fun base_scope :: "scope \<Rightarrow> string" where
  "base_scope ScopeRead = ''read''"
| "base_scope ScopeWrite = ''write''"

definition override_matches :: "override_rule \<Rightarrow> operation_info \<Rightarrow> bool" where
  "override_matches ov op =
     (if ov_field ov = None \<and> ov_operation ov = None then False
      else
        (let field_ok = (case ov_field ov of
               Some f \<Rightarrow> list_ex (\<lambda>sel. sel = f) (oi_top_level_fields op) | None \<Rightarrow> True);
             op_ok = (case ov_operation ov of Some o' \<Rightarrow> oi_name op = Some o' | None \<Rightarrow> True)
         in field_ok \<and> op_ok))"

text \<open>The body of the two nested loops that extend the required set.\<close>

definition extend_required ::
  "operation_info \<Rightarrow> override_rule \<Rightarrow> string list \<Rightarrow> string list" where
  "extend_required op ov required =
     (if override_matches ov op then fold btree_insert (ov_require_scopes ov) required else required)"

definition required_scopes :: "classification \<Rightarrow> policy \<Rightarrow> string list" where
  "required_scopes c pol =
     fold (\<lambda>op. fold (extend_required op) (po_overrides pol)) (cl_operations c)
       (btree_insert (base_scope (cl_scope c)) [])"

definition authorize ::
  "principal \<Rightarrow> classification \<Rightarrow> policy \<Rightarrow> (string list, denied) result" where
  "authorize p c pol =
     (let required = required_scopes c pol;
          missing = filter (\<lambda>s. \<not> satisfies p s) required
      in if missing = [] then Ok required
         else Err \<lparr>dn_required = required, dn_missing = missing\<rparr>)"

section \<open>Lemmas\<close>

text \<open>The scopes a request requires, as a set: the base scope and those of every matching override.\<close>

definition required_set :: "classification \<Rightarrow> policy \<Rightarrow> string set" where
  "required_set c pol =
     insert (base_scope (cl_scope c))
       (\<Union>op \<in> set (cl_operations c). \<Union>ov \<in> {ov \<in> set (po_overrides pol). override_matches ov op}.
          set (ov_require_scopes ov))"

lemma override_matches_iff:
  "override_matches ov op \<longleftrightarrow>
     (ov_field ov \<noteq> None \<or> ov_operation ov \<noteq> None) \<and>
     (\<forall>f. ov_field ov = Some f \<longrightarrow> f \<in> set (oi_top_level_fields op)) \<and>
     (\<forall>n. ov_operation ov = Some n \<longrightarrow> oi_name op = Some n)"
  by (auto simp: override_matches_def list_ex_iff split: option.splits)

text \<open>
  The loops flattened to one list of insertions into the ordered set, so that the facts of its
  interface apply.
\<close>

definition insertions :: "classification \<Rightarrow> policy \<Rightarrow> string list" where
  "insertions c pol =
     base_scope (cl_scope c) #
     concat (map (\<lambda>op. concat (map (\<lambda>ov. if override_matches ov op then ov_require_scopes ov else [])
                                 (po_overrides pol))) (cl_operations c))"

lemma fold_concat: "fold f (concat xss) s = fold (\<lambda>xs. fold f xs) xss s"
  by (induction xss arbitrary: s) simp_all

lemma required_scopes_insertions: "required_scopes c pol = fold btree_insert (insertions c pol) []"
proof -
  have ext: "fold btree_insert (if override_matches ov op then ov_require_scopes ov else []) =
      extend_required op ov" for ov op
    by (simp add: fun_eq_iff extend_required_def)
  have inner: "fold btree_insert
        (concat (map (\<lambda>ov. if override_matches ov op then ov_require_scopes ov else []) ovs)) =
      fold (extend_required op) ovs" for op ovs
    by (simp add: fun_eq_iff fold_concat fold_map comp_def ext)
  show ?thesis
    unfolding required_scopes_def insertions_def
    by (simp add: fold_concat [of _ "map _ (cl_operations c)"] fold_map comp_def inner)
qed

lemma set_insertions: "set (insertions c pol) = required_set c pol"
  by (auto simp: insertions_def required_set_def)

lemma set_required_scopes: "set (required_scopes c pol) = required_set c pol"
  by (simp add: required_scopes_insertions btree.set_extend set_insertions)

lemma sorted_required_scopes: "sorted_wrt (<) (required_scopes c pol)"
  by (simp add: required_scopes_insertions btree.invar_extend)

lemma authorize_Ok_iff:
  "authorize p c pol = Ok r \<longleftrightarrow> r = required_scopes c pol \<and> (\<forall>s \<in> required_set c pol. satisfies p s)"
  by (auto simp: authorize_def Let_def filter_empty_conv set_required_scopes)

lemma authorize_Err_iff:
  "authorize p c pol = Err d \<longleftrightarrow>
     (\<exists>s \<in> required_set c pol. \<not> satisfies p s) \<and>
     d = \<lparr>dn_required = required_scopes c pol,
          dn_missing = filter (\<lambda>s. \<not> satisfies p s) (required_scopes c pol)\<rparr>"
  by (auto simp: authorize_def Let_def filter_empty_conv set_required_scopes)

lemma required_set_equiv:
  assumes "classification_equiv c c'"
  shows "required_set c pol = required_set c' pol"
proof -
  from assms have "set (cl_operations c) = set (cl_operations c')" and "cl_scope c = cl_scope c'"
    unfolding classification_equiv_def by (auto dest: mset_eq_setD)
  then show ?thesis unfolding required_set_def by (simp only:)
qed

lemma required_scopes_equiv: "classification_equiv c c' \<Longrightarrow> required_scopes c pol = required_scopes c' pol"
  unfolding required_scopes_insertions
  by (rule btree.extend_canonical) (simp add: set_insertions required_set_equiv)

lemma required_set_mono:
  "set (po_overrides pol) \<subseteq> set (po_overrides pol') \<Longrightarrow> required_set c pol \<subseteq> required_set c pol'"
  by (fastforce simp: required_set_def)

lemma authorized_write:
  "authorize p c pol = Ok r \<Longrightarrow> cl_scope c = ScopeWrite \<Longrightarrow> ''write'' \<in> pr_scopes p"
  by (auto simp: authorize_Ok_iff required_set_def satisfies_iff)

lemma authorized_read:
  "authorize p c pol = Ok r \<Longrightarrow> ''read'' \<in> pr_scopes p \<or> ''write'' \<in> pr_scopes p"
  by (cases "cl_scope c") (auto simp: authorize_Ok_iff required_set_def satisfies_iff)

lemma authorized_override:
  assumes "authorize p c pol = Ok r" and "op \<in> set (cl_operations c)"
    and "ov \<in> set (po_overrides pol)" and "override_matches ov op"
    and "s \<in> set (ov_require_scopes ov)"
  shows "satisfies p s"
  using assms by (auto simp: authorize_Ok_iff required_set_def)

section \<open>Main theorems\<close>

definition ex_policy :: policy where
  "ex_policy =
     \<lparr>po_fail_closed_on_parse_error = True,
      po_overrides = [\<lparr>ov_field = Some ''queueActions'', ov_operation = None,
                       ov_require_scopes = [''actions:execute'']\<rparr>]\<rparr>"

definition ex_classification :: classification where
  "ex_classification = \<lparr>cl_operations = [ex_read_info, ex_write_info], cl_scope = ScopeWrite\<rparr>"

lemmas ex_authz_defs = ex_policy_def ex_classification_def ex_read_info_def ex_write_info_def
  authorize_def required_scopes_def extend_required_def override_matches_def satisfies_def
  principal_new_def Let_def

text \<open>
  C15. A request is granted exactly when the principal satisfies the base scope of the classification
  and every scope of every override that matches one of its operations; the granted list is that set
  of scopes in ascending order, each once.
\<close>

theorem authorize_grants_iff:
  "authorize p c pol = Ok r \<longleftrightarrow>
     sorted_wrt (<) r \<and> set r = required_set c pol \<and> (\<forall>s \<in> required_set c pol. satisfies p s)"
proof
  assume "authorize p c pol = Ok r"
  then show "sorted_wrt (<) r \<and> set r = required_set c pol \<and> (\<forall>s \<in> required_set c pol. satisfies p s)"
    by (auto simp: authorize_Ok_iff sorted_required_scopes set_required_scopes)
next
  assume r: "sorted_wrt (<) r \<and> set r = required_set c pol \<and> (\<forall>s \<in> required_set c pol. satisfies p s)"
  then have "r = required_scopes c pol"
    by (intro strict_sorted_equal) (simp_all add: sorted_required_scopes set_required_scopes)
  with r show "authorize p c pol = Ok r" by (simp add: authorize_Ok_iff)
qed

theorem authorize_grants_iff_witness:
  "set [''actions:execute'', ''write''] = required_set ex_classification ex_policy \<and>
   satisfies (principal_new ''op'' [''write'', ''actions:execute'']) ''actions:execute''"
proof -
  have "authorize (principal_new ''op'' [''write'', ''actions:execute'']) ex_classification ex_policy =
      Ok [''actions:execute'', ''write'']"
    by (simp add: ex_authz_defs)
  from authorize_grants_iff [THEN iffD1, OF this]
  have "set [''actions:execute'', ''write''] = required_set ex_classification ex_policy"
    and "\<forall>s \<in> required_set ex_classification ex_policy.
      satisfies (principal_new ''op'' [''write'', ''actions:execute'']) s" by blast+
  then show ?thesis by (metis list.set_intros(1))
qed

text \<open>
  A denial reports the whole required set and, in order, exactly the required scopes that the
  principal does not satisfy; that list is never empty.
\<close>

lemma authorize_denial_report:
  assumes "authorize p c pol = Err d"
  shows "set (dn_required d) = required_set c pol \<and>
    set (dn_missing d) = {s \<in> required_set c pol. \<not> satisfies p s} \<and>
    dn_missing d \<noteq> [] \<and> sorted_wrt (<) (dn_required d) \<and> sorted_wrt (<) (dn_missing d)"
proof -
  from assms have "\<exists>s \<in> required_set c pol. \<not> satisfies p s"
    and d: "d = \<lparr>dn_required = required_scopes c pol,
                 dn_missing = filter (\<lambda>s. \<not> satisfies p s) (required_scopes c pol)\<rparr>"
    by (simp_all add: authorize_Err_iff)
  then have "dn_missing d \<noteq> []" by (simp add: filter_empty_conv set_required_scopes)
  with d show ?thesis
    by (auto simp: set_required_scopes sorted_required_scopes sorted_wrt_filter)
qed

text \<open>
  Policy overrides only tighten and scopes only help: whoever is granted a request under a policy
  is granted it under every policy with fewer overrides, and so is every principal with more scopes.
\<close>

lemma authorize_overrides_tighten:
  assumes "authorize p c pol = Ok r"
    and "set (po_overrides pol') \<subseteq> set (po_overrides pol)" and "pr_scopes p \<subseteq> pr_scopes q"
  shows "\<exists>r'. authorize q c pol' = Ok r' \<and> set r' \<subseteq> set r"
proof -
  from assms(2) have sub: "required_set c pol' \<subseteq> required_set c pol" by (rule required_set_mono)
  with assms(1,3) have "\<forall>s \<in> required_set c pol'. satisfies q s"
    by (auto simp: authorize_Ok_iff intro: satisfies_mono)
  with sub assms(1) show ?thesis by (auto simp: authorize_Ok_iff set_required_scopes)
qed

text \<open>
  An authorization decision, with its report, does not depend on the iteration order of the
  parser's hash maps: the same body gives the same grant or the same denial.
\<close>

lemma authorize_order_independent:
  assumes "\<And>q. rel_sum (=) doc_equiv (parse_query q) (parse_query' q)"
    and "classify from_slice parse_query body = Ok c"
    and "classify from_slice parse_query' body = Ok c'"
  shows "authorize p c pol = authorize p c' pol"
proof -
  have "rel_sum (=) classification_equiv
      (classify from_slice parse_query body) (classify from_slice parse_query' body)"
    using assms(1) by (rule classify_equiv)
  with assms(2,3) have "classification_equiv c c'" by simp
  then show ?thesis by (simp add: authorize_def Let_def required_scopes_equiv)
qed

end
