(* ===== verification/Iga_Proxy.thy ===== *)
theory Iga_Proxy
  imports Iga_Config
begin

text \<open>
  The proxy (\<^verbatim>\<open>src/src/proxy.rs\<close>): routing by path prefix, header filtering in both
  directions, and forwarding.

  A header map is the sequence of name and value pairs that its iterator yields, with the lower-case
  names of \<^verbatim>\<open>HeaderName\<close>; \<^verbatim>\<open>append\<close> adds a pair at the end. Sending a request and
  reading the body of a response are \<^verbatim>\<open>reqwest\<close>'s and are the parameters \<open>send\<close> and
  \<open>read_bytes\<close>. Every request handed to \<open>send\<close> is recorded in a log, so that what reaches an
  upstream can be stated.
\<close>

type_synonym headers = "(string \<times> bytes) list"
type_synonym http_method = string
type_synonym status_code = u16

section \<open>Routing\<close>

datatype upstream_target = AgentManagement | GraphNodeAdmin | GraphNodeStatus

definition ADMIN_PREFIX :: string where
  "ADMIN_PREFIX = ''/_admin''"

definition STATUS_PREFIX :: string where
  "STATUS_PREFIX = ''/_status''"

definition strip_prefix_segment :: "string \<Rightarrow> string \<Rightarrow> string option" where
  "strip_prefix_segment path prefix =
     (case strip_prefix prefix path of
        None \<Rightarrow> None
      | Some rest \<Rightarrow>
          if rest = [] then Some ''/''
          else if starts_with rest (CHR ''/'') then Some rest
          else None)"

definition route :: "string \<Rightarrow> upstream_target \<times> string" where
  "route path =
     (case strip_prefix_segment path ADMIN_PREFIX of
        Some rest \<Rightarrow> (GraphNodeAdmin, rest)
      | None \<Rightarrow>
          (case strip_prefix_segment path STATUS_PREFIX of
             Some rest \<Rightarrow> (GraphNodeStatus, rest)
           | None \<Rightarrow> (AgentManagement, path)))"

section \<open>Headers\<close>

definition is_hop_by_hop :: "string \<Rightarrow> bool" where
  "is_hop_by_hop name =
     (name \<in> {''connection'', ''keep-alive'', ''proxy-authenticate'', ''proxy-authorization'', ''te'',
       ''trailer'', ''transfer-encoding'', ''upgrade''})"

text \<open>The loop of both filters; \<open>out\<close> is the header map built so far.\<close>

fun filter_loop :: "(string \<Rightarrow> bool) \<Rightarrow> headers \<Rightarrow> headers \<Rightarrow> headers" where
  "filter_loop skip [] out = out"
| "filter_loop skip ((name, value) # headers) out =
     (if skip name then filter_loop skip headers out
      else filter_loop skip headers (out @ [(name, value)]))"

definition filter_forward_headers :: "headers \<Rightarrow> headers" where
  "filter_forward_headers headers =
     filter_loop (\<lambda>name. is_hop_by_hop name \<or> name = ''host'' \<or> name = ''authorization'') headers []"

definition filter_response_headers :: "headers \<Rightarrow> headers" where
  "filter_response_headers headers =
     filter_loop (\<lambda>name. is_hop_by_hop name \<or> name = ''content-length'') headers []"

section \<open>Forwarding\<close>

record proxy_response =
  prs_status :: status_code
  prs_headers :: headers
  prs_body :: bytes

datatype proxy_error =
    NoUpstream upstream_target
  | BadUrl string
  | Upstream string

fun target_debug :: "upstream_target \<Rightarrow> string" where
  "target_debug AgentManagement = ''AgentManagement''"
| "target_debug GraphNodeAdmin = ''GraphNodeAdmin''"
| "target_debug GraphNodeStatus = ''GraphNodeStatus''"

fun proxy_error_display :: "proxy_error \<Rightarrow> string" where
  "proxy_error_display (NoUpstream t) = ''upstream '' @ target_debug t @ '' is not configured''"
| "proxy_error_display (BadUrl u) = ''invalid upstream URL: '' @ u"
| "proxy_error_display (Upstream e) = ''upstream request failed: '' @ e"

record proxy =
  px_agent_management :: string
  px_graph_node_admin :: "string option"
  px_graph_node_status :: "string option"

definition trim_trailing_slash :: "string \<Rightarrow> string" where
  "trim_trailing_slash s = (case strip_suffix_char (CHR ''/'') s of Some r \<Rightarrow> r | None \<Rightarrow> s)"

definition proxy_new :: "upstream \<Rightarrow> proxy" where
  "proxy_new up =
     \<lparr>px_agent_management = trim_trailing_slash (up_agent_management up),
      px_graph_node_admin = map_option trim_trailing_slash (up_graph_node_admin up),
      px_graph_node_status = map_option trim_trailing_slash (up_graph_node_status up)\<rparr>"

fun base_for :: "proxy \<Rightarrow> upstream_target \<Rightarrow> (string, proxy_error) result" where
  "base_for px AgentManagement = Ok (px_agent_management px)"
| "base_for px GraphNodeAdmin = ok_or (px_graph_node_admin px) (NoUpstream GraphNodeAdmin)"
| "base_for px GraphNodeStatus = ok_or (px_graph_node_status px) (NoUpstream GraphNodeStatus)"

text \<open>A request as handed to the HTTP client, and the head of a response with its unread body.\<close>

record upstream_request =
  ur_method :: http_method
  ur_url :: string
  ur_headers :: headers
  ur_body :: bytes

record 'b upstream_reply =
  rp_status :: status_code
  rp_headers :: headers
  rp_body :: 'b

definition forward ::
  "(upstream_request \<Rightarrow> ('b upstream_reply, string) result) \<Rightarrow> ('b \<Rightarrow> (bytes, string) result) \<Rightarrow>
   proxy \<Rightarrow> upstream_request list \<Rightarrow> http_method \<Rightarrow> string \<Rightarrow> headers \<Rightarrow> bytes \<Rightarrow>
   (proxy_response, proxy_error) result \<times> upstream_request list" where
  "forward send read_bytes px sent method path_and_query headers body =
     (let (target, forward_path) = route path_and_query in
      case base_for px target of
        Inl e \<Rightarrow> (Err e, sent)
      | Inr base \<Rightarrow>
          let url = base @ forward_path;
              request = \<lparr>ur_method = method, ur_url = url,
                         ur_headers = filter_forward_headers headers, ur_body = body\<rparr>
          in (and_then (map_err Upstream (send request))
                (\<lambda>response.
                   map_ok (\<lambda>b. \<lparr>prs_status = rp_status response, prs_headers = rp_headers response, prs_body = b\<rparr>)
                     (map_err Upstream (read_bytes (rp_body response)))),
              sent @ [request]))"

section \<open>The contract of a header filter\<close>

text \<open>The values of a name, in order, and the first of them (\<^verbatim>\<open>HeaderMap::get\<close>).\<close>

definition get_all :: "headers \<Rightarrow> string \<Rightarrow> bytes list" where
  "get_all hs name = map snd (filter (\<lambda>(n, v). n = name) hs)"

definition header_get :: "headers \<Rightarrow> string \<Rightarrow> bytes option" where
  "header_get hs name = map_of hs name"

lemma get_all_simps [simp]:
  "get_all [] n = []"
  "get_all ((m, v) # hs) n = (if m = n then v # get_all hs n else get_all hs n)"
  "get_all (hs @ hs') n = get_all hs n @ get_all hs' n"
  by (simp_all add: get_all_def)

lemma header_get_get_all: "header_get hs n = (case get_all hs n of [] \<Rightarrow> None | v # _ \<Rightarrow> Some v)"
  unfolding header_get_def by (induction hs) auto

lemma get_all_Nil_iff: "get_all hs n = [] \<longleftrightarrow> n \<notin> fst ` set hs"
  by (force simp: get_all_def filter_empty_conv)

locale header_filter =
  fixes keep :: "headers \<Rightarrow> headers"
    and dropped :: "string \<Rightarrow> bool"
  assumes keep_get_all: "get_all (keep hs) n = (if dropped n then [] else get_all hs n)"
begin

lemma dropped_absent: "dropped n \<Longrightarrow> n \<notin> fst ` set (keep hs)"
  using keep_get_all [of hs n] by (simp add: get_all_Nil_iff)

lemma kept_get: "\<not> dropped n \<Longrightarrow> header_get (keep hs) n = header_get hs n"
  by (simp add: header_get_get_all keep_get_all)

lemma idempotent: "get_all (keep (keep hs)) n = get_all (keep hs) n"
  by (simp add: keep_get_all)

lemma names: "fst ` set (keep hs) = {n \<in> fst ` set hs. \<not> dropped n}"
proof -
  have "n \<in> fst ` set (keep hs) \<longleftrightarrow> n \<in> fst ` set hs \<and> \<not> dropped n" for n
    using keep_get_all [of hs n] get_all_Nil_iff [of "keep hs" n] get_all_Nil_iff [of hs n]
    by (cases "dropped n") simp_all
  then show ?thesis by blast
qed

end

lemma get_all_filter_loop:
  "get_all (filter_loop skip hs out) n = get_all out n @ (if skip n then [] else get_all hs n)"
  by (induction skip hs out rule: filter_loop.induct) auto

lemma filter_loop_eq: "filter_loop skip hs out = out @ filter (\<lambda>(n, v). \<not> skip n) hs"
  by (induction skip hs out rule: filter_loop.induct) auto

interpretation to_upstream: header_filter filter_forward_headers
  "\<lambda>n. is_hop_by_hop n \<or> n = ''host'' \<or> n = ''authorization''"
  by unfold_locales (simp add: filter_forward_headers_def get_all_filter_loop)

interpretation to_client: header_filter filter_response_headers
  "\<lambda>n. is_hop_by_hop n \<or> n = ''content-length''"
  by unfold_locales (simp add: filter_response_headers_def get_all_filter_loop)

section \<open>Lemmas on routing and forwarding\<close>

lemma starts_with_iff: "starts_with s c \<longleftrightarrow> (\<exists>r. s = c # r)"
  by (cases s) (auto simp: starts_with_def)

lemma strip_prefix_segment_Some_iff:
  "strip_prefix_segment path p = Some rest \<longleftrightarrow>
     (path = p \<and> rest = ''/'') \<or> (starts_with rest (CHR ''/'') \<and> path = p @ rest)"
proof (cases "strip_prefix p path")
  case None
  then have "\<forall>r. path \<noteq> p @ r" by (simp add: strip_prefix_None_iff)
  moreover from this have "path \<noteq> p" by (metis append_Nil2)
  ultimately show ?thesis using None by (auto simp: strip_prefix_segment_def)
next
  case (Some r)
  then have "path = p @ r" by (simp add: strip_prefix_Some_iff)
  with Some show ?thesis by (auto simp: strip_prefix_segment_def starts_with_iff)
qed

lemma prefixes_exclusive:
  "strip_prefix_segment path ADMIN_PREFIX = Some a \<Longrightarrow> strip_prefix_segment path STATUS_PREFIX = None"
  by (auto simp: strip_prefix_segment_def ADMIN_PREFIX_def STATUS_PREFIX_def strip_prefix_Some_iff
      split: option.splits)

lemma route_cases:
  "route path = (t, rest) \<longleftrightarrow>
     (case t of
        GraphNodeAdmin \<Rightarrow> strip_prefix_segment path ADMIN_PREFIX = Some rest
      | GraphNodeStatus \<Rightarrow> strip_prefix_segment path STATUS_PREFIX = Some rest
      | AgentManagement \<Rightarrow> rest = path \<and> strip_prefix_segment path ADMIN_PREFIX = None \<and>
          strip_prefix_segment path STATUS_PREFIX = None)"
  using prefixes_exclusive [of path]
  by (auto simp: route_def split: option.splits upstream_target.splits)

lemma route_rooted:
  assumes "starts_with path (CHR ''/'')"
  shows "starts_with (snd (route path)) (CHR ''/'')"
proof -
  obtain t rest where r: "route path = (t, rest)" by (cases "route path")
  with assms have "starts_with rest (CHR ''/'')"
    by (cases t) (auto simp: route_cases strip_prefix_segment_Some_iff starts_with_iff)
  with r show ?thesis by simp
qed

lemma route_elsewhere:
  assumes "fst (route path) \<noteq> AgentManagement"
  shows "starts_with (snd (route path)) (CHR ''/'')"
proof -
  obtain t rest where r: "route path = (t, rest)" by (cases "route path")
  with assms have "starts_with rest (CHR ''/'')"
    by (cases t) (auto simp: route_cases strip_prefix_segment_Some_iff starts_with_def)
  with r show ?thesis by simp
qed

lemma route_reassemble:
  assumes "starts_with rest (CHR ''/'')"
  shows "route (ADMIN_PREFIX @ rest) = (GraphNodeAdmin, rest) \<and>
    route (STATUS_PREFIX @ rest) = (GraphNodeStatus, rest)"
  using assms by (simp add: route_cases strip_prefix_segment_Some_iff)

lemma base_for_Err_iff:
  "base_for px t = Err e \<longleftrightarrow> e = NoUpstream t \<and>
     (t = GraphNodeAdmin \<and> px_graph_node_admin px = None \<or>
      t = GraphNodeStatus \<and> px_graph_node_status px = None)"
  by (cases t) (auto simp: result_simps)

lemma forward_sent:
  "snd (forward send rb px sent m pq hs body) =
     (case base_for px (fst (route pq)) of
        Inl e \<Rightarrow> sent
      | Inr base \<Rightarrow> sent @ [\<lparr>ur_method = m, ur_url = base @ snd (route pq),
          ur_headers = filter_forward_headers hs, ur_body = body\<rparr>])"
  by (simp add: forward_def Let_def split: sum.split prod.split)

lemma forward_NoUpstream:
  "fst (forward send rb px sent m pq hs body) = Err (NoUpstream t) \<longleftrightarrow>
     t = fst (route pq) \<and> (\<exists>e. base_for px t = Err e)"
  by (auto simp: forward_def Let_def result_simps base_for_Err_iff split: sum.split prod.split)

lemma forward_Ok:
  "fst (forward send rb px sent m pq hs body) = Ok r \<longleftrightarrow>
     (\<exists>base reply. base_for px (fst (route pq)) = Ok base \<and>
        send \<lparr>ur_method = m, ur_url = base @ snd (route pq),
              ur_headers = filter_forward_headers hs, ur_body = body\<rparr> = Ok reply \<and>
        rb (rp_body reply) = Ok (prs_body r) \<and> prs_status r = rp_status reply \<and>
        prs_headers r = rp_headers reply)"
proof -
  have eq: "r = \<lparr>prs_status = s, prs_headers = h, prs_body = b\<rparr> \<longleftrightarrow>
      prs_status r = s \<and> prs_headers r = h \<and> prs_body r = b" for s h b
    by (cases r) auto
  show ?thesis
    by (auto simp: forward_def Let_def result_simps eq split: sum.split prod.split)
qed

section \<open>Main theorems\<close>

text \<open>
  C39. Routing: a path goes to the admin (status) upstream exactly when its first segment is
  \<^verbatim>\<open>_admin\<close> (\<^verbatim>\<open>_status\<close>), that is when it is the prefix alone or the prefix followed
  by a slash and more, with the prefix stripped and the root as the remainder of the bare prefix;
  every other path goes to the management API unchanged.
\<close>

theorem route_exact:
  "(route path = (GraphNodeAdmin, rest) \<longleftrightarrow>
      path = ''/_admin'' \<and> rest = ''/'' \<or> path = ''/_admin'' @ rest \<and> starts_with rest (CHR ''/'')) \<and>
   (route path = (GraphNodeStatus, rest) \<longleftrightarrow>
      path = ''/_status'' \<and> rest = ''/'' \<or> path = ''/_status'' @ rest \<and> starts_with rest (CHR ''/'')) \<and>
   (route path = (AgentManagement, rest) \<longleftrightarrow>
      rest = path \<and> path \<noteq> ''/_admin'' \<and> path \<noteq> ''/_status'' \<and>
      (\<nexists>r. path = ''/_admin/'' @ r \<or> path = ''/_status/'' @ r))"
proof -
  have none: "strip_prefix_segment path p = None \<longleftrightarrow> path \<noteq> p \<and> (\<nexists>r. path = (p @ ''/'') @ r)" for p
    by (cases "strip_prefix_segment path p")
      (force simp: strip_prefix_segment_def strip_prefix_Some_iff strip_prefix_None_iff starts_with_iff
        split: option.splits if_splits)+
  show ?thesis
    unfolding route_cases upstream_target.case none strip_prefix_segment_Some_iff
      ADMIN_PREFIX_def STATUS_PREFIX_def
    by (simp add: conj_commute) auto
qed

text \<open>
  Header filtering is exact in both directions: towards the upstream the hop-by-hop headers,
  \<^verbatim>\<open>host\<close> and \<^verbatim>\<open>authorization\<close> are gone and towards the client the hop-by-hop headers
  and \<^verbatim>\<open>content-length\<close>; every other name keeps all its values in order. Filtering twice
  changes nothing more.
\<close>

lemma header_filters_exact:
  "get_all (filter_forward_headers hs) n =
     (if n \<in> {''connection'', ''keep-alive'', ''proxy-authenticate'', ''proxy-authorization'', ''te'',
        ''trailer'', ''transfer-encoding'', ''upgrade'', ''host'', ''authorization''} then [] else get_all hs n) \<and>
   get_all (filter_response_headers hs) n =
     (if n \<in> {''connection'', ''keep-alive'', ''proxy-authenticate'', ''proxy-authorization'', ''te'',
        ''trailer'', ''transfer-encoding'', ''upgrade'', ''content-length''} then [] else get_all hs n) \<and>
   get_all (filter_forward_headers (filter_forward_headers hs)) n = get_all (filter_forward_headers hs) n \<and>
   get_all (filter_response_headers (filter_response_headers hs)) n = get_all (filter_response_headers hs) n"
  unfolding to_upstream.idempotent to_client.idempotent
  unfolding to_upstream.keep_get_all to_client.keep_get_all is_hop_by_hop_def by auto

text \<open>The addresses that the configuration gives, without a trailing slash.\<close>

definition configured_bases :: "upstream \<Rightarrow> string set" where
  "configured_bases up =
     trim_trailing_slash `
       ({up_agent_management up} \<union> set_option (up_graph_node_admin up) \<union> set_option (up_graph_node_status up))"

lemma base_for_configured: "base_for (proxy_new up) t = Ok base \<Longrightarrow> base \<in> configured_bases up"
  by (cases t) (auto simp: proxy_new_def configured_bases_def result_simps)

text \<open>
  C20. Confinement: whatever the request target, at most one request is sent, with the method and the
  body of the client, and without its \<^verbatim>\<open>authorization\<close> and \<^verbatim>\<open>host\<close> headers; its URL is
  the configured address of the route followed by the forwarded path. That path starts with a slash,
  so that the client cannot change the authority part of the URL, with one exception: a request target
  that does not start with a slash, such as \<^verbatim>\<open>*\<close>, is appended as it is to the address of the
  management API.
\<close>

theorem forward_confined:
  "snd (forward send read_bytes (proxy_new up) sent method path_and_query hs body) = sent \<or>
    (\<exists>base rest request.
       snd (forward send read_bytes (proxy_new up) sent method path_and_query hs body) = sent @ [request] \<and>
       base_for (proxy_new up) (fst (route path_and_query)) = Ok base \<and> base \<in> configured_bases up \<and>
       ur_url request = base @ rest \<and>
       (if starts_with path_and_query (CHR ''/'') \<or> fst (route path_and_query) \<noteq> AgentManagement
        then \<exists>path. rest = CHR ''/'' # path else rest = path_and_query) \<and>
       ur_method request = method \<and> ur_body request = body \<and>
       get_all (ur_headers request) ''authorization'' = [] \<and> get_all (ur_headers request) ''host'' = [])"
proof (cases "base_for (proxy_new up) (fst (route path_and_query))")
  case (Inl e)
  then show ?thesis by (simp add: forward_sent)
next
  case (Inr base)
  have "\<exists>path. snd (route path_and_query) = CHR ''/'' # path"
    if "starts_with path_and_query (CHR ''/'') \<or> fst (route path_and_query) \<noteq> AgentManagement"
    using that route_elsewhere route_rooted by (auto simp: starts_with_iff)
  moreover have "snd (route path_and_query) = path_and_query" if "fst (route path_and_query) = AgentManagement"
    using that route_cases [of path_and_query AgentManagement] by (auto simp: prod_eq_iff)
  ultimately show ?thesis
    using Inr base_for_configured [OF Inr] by (simp add: forward_sent to_upstream.keep_get_all)
qed

definition ex_upstream :: upstream where
  "ex_upstream =
     \<lparr>up_agent_management = ''http://m:1/'', up_graph_node_admin = Some ''http://a:2'',
      up_graph_node_status = None\<rparr>"

definition ex_send :: "upstream_request \<Rightarrow> (bytes upstream_reply, string) result" where
  "ex_send req = Ok \<lparr>rp_status = 200, rp_headers = [(''te'', ''x''), (''server'', ''s'')], rp_body = ''pong''\<rparr>"

theorem forward_confined_witness:
  "snd (forward ex_send Ok (proxy_new ex_upstream) [] ''POST'' ''/_admin/x''
     [(''host'', ''h''), (''authorization'', ''Bearer t''), (''accept'', ''*'')] ''b'') =
   [\<lparr>ur_method = ''POST'', ur_url = ''http://a:2/x'', ur_headers = [(''accept'', ''*'')], ur_body = ''b''\<rparr>]"
proof -
  note forward_confined [of ex_send Ok ex_upstream "[]" "''POST''" "''/_admin/x''"
    "[(''host'', ''h''), (''authorization'', ''Bearer t''), (''accept'', ''*'')]" "''b''"]
  moreover have "snd (forward ex_send Ok (proxy_new ex_upstream) [] ''POST'' ''/_admin/x'' hs ''b'') =
      [\<lparr>ur_method = ''POST'', ur_url = ''http://a:2/x'', ur_headers = filter_forward_headers hs, ur_body = ''b''\<rparr>]" for hs
    by (simp add: forward_sent route_def strip_prefix_segment_def ADMIN_PREFIX_def starts_with_def
      proxy_new_def ex_upstream_def trim_trailing_slash_def strip_suffix_char_def)
  ultimately show ?thesis
    by (simp add: filter_forward_headers_def is_hop_by_hop_def)
qed

end
