(* ===== verification/Iga_Audit.thy ===== *)
theory Iga_Audit
  imports Iga_Classify Iga_Json "HOL-Library.Sublist"
begin

text \<open>
  Audit logging (\<^verbatim>\<open>src/src/audit.rs\<close>): the record, its JSON form as the serialisation
  attributes of the struct prescribe it, the fingerprint of the variables, and the sink.

  Parameters: \<open>to_string\<close> prints a JSON value on one line (\<^verbatim>\<open>serde_json::to_string\<close>),
  \<open>to_vec\<close> prints it to bytes, \<open>sha256_hex\<close> is the hexadecimal digest, and an \<open>audit_io\<close>
  says how the device answers: whether a write fails and with which error, and whether the lock of
  the file is free of poison. Of a device the model keeps the lines written completely; what a
  failed write leaves behind is not modelled.
\<close>

section \<open>Records\<close>

datatype outcome =
    Allowed
  | AuthFailed string
  | Denied string
  | Rejected string
  | RateLimited

record audit_record =
  ar_timestamp :: string
  ar_principal :: string
  ar_source_ip :: "string option"
  ar_scope :: "scope option"
  ar_operation_name :: "string option"
  ar_operation_kinds :: "operation_kind list"
  ar_top_level_fields :: "string list"
  ar_variables_hash :: "string option"
  ar_variables :: "json option"
  ar_outcome :: outcome
  ar_upstream_status :: "u16 option"
  ar_latency_ms :: "u64 option"

fun scope_json :: "scope \<Rightarrow> json" where
  "scope_json ScopeRead = JString ''read''"
| "scope_json ScopeWrite = JString ''write''"

fun kind_json :: "operation_kind \<Rightarrow> json" where
  "kind_json Query = JString ''query''"
| "kind_json Mutation = JString ''mutation''"
| "kind_json Subscription = JString ''subscription''"

text \<open>The outcome is internally tagged, and flattened into the record.\<close>

fun outcome_members :: "outcome \<Rightarrow> (string \<times> json) list" where
  "outcome_members Allowed = [(''outcome'', JString ''allowed'')]"
| "outcome_members (AuthFailed reason) =
     [(''outcome'', JString ''auth_failed''), (''reason'', JString reason)]"
| "outcome_members (Denied reason) = [(''outcome'', JString ''denied''), (''reason'', JString reason)]"
| "outcome_members (Rejected reason) = [(''outcome'', JString ''rejected''), (''reason'', JString reason)]"
| "outcome_members RateLimited = [(''outcome'', JString ''rate_limited'')]"

definition skip_none :: "string \<Rightarrow> ('a \<Rightarrow> json) \<Rightarrow> 'a option \<Rightarrow> (string \<times> json) list" where
  "skip_none key f m = (case m of None \<Rightarrow> [] | Some x \<Rightarrow> [(key, f x)])"

definition skip_empty :: "string \<Rightarrow> ('a \<Rightarrow> json) \<Rightarrow> 'a list \<Rightarrow> (string \<times> json) list" where
  "skip_empty key f xs = (if xs = [] then [] else [(key, JArray (map f xs))])"

definition number_json :: "'a::len word \<Rightarrow> json" where
  "number_json w = JNumber (dec (unat w))"

definition audit_members :: "audit_record \<Rightarrow> (string \<times> json) list" where
  "audit_members r =
     [(''timestamp'', JString (ar_timestamp r)), (''principal'', JString (ar_principal r))] @
     skip_none ''source_ip'' JString (ar_source_ip r) @
     skip_none ''scope'' scope_json (ar_scope r) @
     skip_none ''operation_name'' JString (ar_operation_name r) @
     skip_empty ''operation_kinds'' kind_json (ar_operation_kinds r) @
     skip_empty ''top_level_fields'' JString (ar_top_level_fields r) @
     skip_none ''variables_hash'' JString (ar_variables_hash r) @
     skip_none ''variables'' (\<lambda>v. v) (ar_variables r) @
     outcome_members (ar_outcome r) @
     skip_none ''upstream_status'' number_json (ar_upstream_status r) @
     skip_none ''latency_ms'' number_json (ar_latency_ms r)"

definition audit_json :: "audit_record \<Rightarrow> json" where
  "audit_json r = JObject (audit_members r)"

definition to_json_line :: "(json \<Rightarrow> string option) \<Rightarrow> audit_record \<Rightarrow> string" where
  "to_json_line to_string r =
     (case to_string (audit_json r) of Some s \<Rightarrow> s | None \<Rightarrow> ''{\"audit\":\"serialize_error\"}'')"

definition hash_variables :: "(json \<Rightarrow> bytes option) \<Rightarrow> (bytes \<Rightarrow> string) \<Rightarrow> json \<Rightarrow> string" where
  "hash_variables to_vec sha256_hex variables =
     (let bytes = (case to_vec variables of Some b \<Rightarrow> b | None \<Rightarrow> []) in sha256_hex bytes)"

section \<open>The sink\<close>

datatype audit_sink = Stdout | File string | Null

record audit_io =
  io_write_error :: "string \<Rightarrow> string option"
  io_lock_ok :: bool

record audit_log =
  al_lines :: "string list"
  al_errors :: "string list"

text \<open>Opening a file sink: \<open>open_append\<close> opens or creates the file, or gives the error.\<close>

definition audit_sink_file :: "(string \<Rightarrow> (string, 'e) result) \<Rightarrow> string \<Rightarrow> (audit_sink, 'e) result" where
  "audit_sink_file open_append path = map_ok File (open_append path)"

definition write_line :: "audit_io \<Rightarrow> string \<Rightarrow> string \<Rightarrow> audit_log \<Rightarrow> audit_log" where
  "write_line io message line l =
     (case io_write_error io line of
        None \<Rightarrow> l\<lparr>al_lines := al_lines l @ [line]\<rparr>
      | Some e \<Rightarrow> l\<lparr>al_errors := al_errors l @ [message @ e]\<rparr>)"

definition emit :: "(json \<Rightarrow> string option) \<Rightarrow> audit_io \<Rightarrow> audit_sink \<Rightarrow> audit_record \<Rightarrow> audit_log \<Rightarrow> audit_log" where
  "emit to_string io sink r l =
     (let line = to_json_line to_string r in
      case sink of
        Stdout \<Rightarrow> write_line io ''failed to write audit record to stdout'' line l
      | File f \<Rightarrow>
          if io_lock_ok io then write_line io ''failed to write audit record to file'' line l else l
      | Null \<Rightarrow> l)"

section \<open>Lemmas on the JSON form\<close>

lemma subseq_distinct: "subseq xs ys \<Longrightarrow> distinct ys \<Longrightarrow> distinct xs"
  by (induction rule: list_emb.induct) (auto dest: list_emb_set)

definition audit_keys :: "string list" where
  "audit_keys =
     [''timestamp'', ''principal'', ''source_ip'', ''scope'', ''operation_name'', ''operation_kinds'',
      ''top_level_fields'', ''variables_hash'', ''variables'', ''outcome'', ''reason'',
      ''upstream_status'', ''latency_ms'']"

lemma skip_keys:
  "subseq (map fst (skip_none k f m)) [k]"
  "subseq (map fst (skip_empty k g xs)) [k]"
  by (auto simp: skip_none_def skip_empty_def split: option.split)

lemma outcome_keys: "subseq (map fst (outcome_members oc)) [''outcome'', ''reason'']"
  by (cases oc) simp_all

lemma audit_members_keys: "subseq (map fst (audit_members r)) audit_keys"
proof -
  have keys: "audit_keys =
      [''timestamp'', ''principal''] @ [''source_ip''] @ [''scope''] @ [''operation_name''] @
      [''operation_kinds''] @ [''top_level_fields''] @ [''variables_hash''] @ [''variables''] @
      [''outcome'', ''reason''] @ [''upstream_status''] @ [''latency_ms'']"
    by (simp add: audit_keys_def)
  show ?thesis
    unfolding keys audit_members_def map_append
    by (intro list_emb_append_mono skip_keys outcome_keys) simp
qed

lemma map_of_skip:
  "map_of (skip_none k f m) k' = (if k' = k then map_option f m else None)"
  "map_of (skip_empty k g xs) k' = (if k' = k \<and> xs \<noteq> [] then Some (JArray (map g xs)) else None)"
  by (auto simp: skip_none_def skip_empty_def split: option.split)

lemma map_of_outcome:
  "k \<noteq> ''outcome'' \<Longrightarrow> k \<noteq> ''reason'' \<Longrightarrow> map_of (outcome_members oc) k = None"
  by (cases oc) simp_all

lemma map_of_outcome_inject:
  "map_of (outcome_members o1) ''outcome'' = map_of (outcome_members o2) ''outcome'' \<Longrightarrow>
   map_of (outcome_members o1) ''reason'' = map_of (outcome_members o2) ''reason'' \<Longrightarrow> o1 = o2"
  by (cases o1; cases o2) simp_all

lemmas audit_get = audit_members_def map_add_def map_of_skip map_of_outcome

lemma audit_members_get:
  "map_of (audit_members r) ''timestamp'' = Some (JString (ar_timestamp r))"
  "map_of (audit_members r) ''principal'' = Some (JString (ar_principal r))"
  "map_of (audit_members r) ''source_ip'' = map_option JString (ar_source_ip r)"
  "map_of (audit_members r) ''scope'' = map_option scope_json (ar_scope r)"
  "map_of (audit_members r) ''operation_name'' = map_option JString (ar_operation_name r)"
  "map_of (audit_members r) ''operation_kinds'' =
     (if ar_operation_kinds r = [] then None else Some (JArray (map kind_json (ar_operation_kinds r))))"
  "map_of (audit_members r) ''top_level_fields'' =
     (if ar_top_level_fields r = [] then None else Some (JArray (map JString (ar_top_level_fields r))))"
  "map_of (audit_members r) ''variables_hash'' = map_option JString (ar_variables_hash r)"
  "map_of (audit_members r) ''variables'' = ar_variables r"
  "map_of (audit_members r) ''outcome'' = map_of (outcome_members (ar_outcome r)) ''outcome''"
  "map_of (audit_members r) ''reason'' = map_of (outcome_members (ar_outcome r)) ''reason''"
  "map_of (audit_members r) ''upstream_status'' = map_option number_json (ar_upstream_status r)"
  "map_of (audit_members r) ''latency_ms'' = map_option number_json (ar_latency_ms r)"
  by (simp_all add: audit_get option.map_ident split: option.split)

lemma scope_json_inject [simp]: "scope_json a = scope_json b \<longleftrightarrow> a = b"
  by (cases a; cases b) simp_all

lemma kind_json_inject [simp]: "kind_json a = kind_json b \<longleftrightarrow> a = b"
  by (cases a; cases b) simp_all

lemma number_json_inject [simp]: "number_json a = number_json b \<longleftrightarrow> a = b"
  by (simp add: number_json_def word_unat_eq_iff)

lemma map_option_inject: "inj f \<Longrightarrow> map_option f a = map_option f b \<longleftrightarrow> a = b"
  by (cases a; cases b) (auto dest: injD)

lemma nonempty_array_inject:
  assumes "inj f"
    and "(if xs = [] then None else Some (JArray (map f xs))) =
      (if ys = [] then None else Some (JArray (map f ys)))"
  shows "xs = ys"
  using assms by (auto split: if_splits dest: map_injective)

lemma outcome_get_inject:
  "map_of (audit_members r) ''outcome'' = map_of (audit_members r') ''outcome'' \<Longrightarrow>
   map_of (audit_members r) ''reason'' = map_of (audit_members r') ''reason'' \<Longrightarrow>
   ar_outcome r = ar_outcome r'"
  unfolding audit_members_get by (rule map_of_outcome_inject)

section \<open>Main theorems\<close>

text \<open>
  C36. The JSON form of an audit record is a proper object, in which no key occurs twice although
  the outcome is flattened into it, and it loses nothing: two records with the same JSON form are
  the same record.
\<close>

theorem audit_json_faithful:
  "distinct (map fst (audit_members r)) \<and> (audit_json r = audit_json r' \<longleftrightarrow> r = r')"
proof
  have "distinct audit_keys" by (simp add: audit_keys_def)
  then show "distinct (map fst (audit_members r))" by (rule subseq_distinct [OF audit_members_keys])
next
  have "r = r'" if eq: "audit_members r = audit_members r'"
  proof -
    from eq have get: "map_of (audit_members r) k = map_of (audit_members r') k" for k by simp
    have "ar_source_ip r = ar_source_ip r'" "ar_operation_name r = ar_operation_name r'"
      "ar_variables_hash r = ar_variables_hash r'" "ar_scope r = ar_scope r'"
      "ar_upstream_status r = ar_upstream_status r'" "ar_latency_ms r = ar_latency_ms r'"
      using get [of "''source_ip''"] get [of "''operation_name''"] get [of "''variables_hash''"]
        get [of "''scope''"] get [of "''upstream_status''"] get [of "''latency_ms''"]
      by (simp_all add: audit_members_get map_option_inject inj_def)
    moreover have "ar_operation_kinds r = ar_operation_kinds r'" "ar_top_level_fields r = ar_top_level_fields r'"
      using get [of "''operation_kinds''"] get [of "''top_level_fields''"]
      unfolding audit_members_get by (auto intro!: nonempty_array_inject simp: inj_def)
    moreover have "ar_timestamp r = ar_timestamp r'" "ar_principal r = ar_principal r'"
      "ar_variables r = ar_variables r'"
      using get [of "''timestamp''"] get [of "''principal''"] get [of "''variables''"]
      by (simp_all add: audit_members_get)
    moreover from get have "ar_outcome r = ar_outcome r'" by (blast intro: outcome_get_inject)
    ultimately show ?thesis by simp
  qed
  then show "audit_json r = audit_json r' \<longleftrightarrow> r = r'" by (auto simp: audit_json_def)
qed

text \<open>
  Emitting a record never fails the request. With a sink that is not disabled and a file lock
  that is not poisoned, the record is either written as one further line or its failure is traced
  as one further error, never both; otherwise the record is dropped without a trace.
\<close>

lemma emit_exact:
  "(let l' = emit to_string io sink r l; line = to_json_line to_string r in
    if sink = Null \<or> (\<exists>f. sink = File f) \<and> \<not> io_lock_ok io then l' = l
    else if io_write_error io line = None
      then al_lines l' = al_lines l @ [line] \<and> al_errors l' = al_errors l
      else al_lines l' = al_lines l \<and> length (al_errors l') = Suc (length (al_errors l)))"
  by (cases sink) (auto simp: emit_def write_line_def Let_def split: option.split)

end
