(* ===== verification/Iga_Metrics.thy ===== *)
theory Iga_Metrics
  imports Complex_Main Iga_Json
begin

text \<open>
  Metrics (\<^verbatim>\<open>src/src/metrics.rs\<close>): the series the gateway records, with the recording helpers
  as state transformers. The recorder itself (\<^verbatim>\<open>metrics\<close>, \<^verbatim>\<open>metrics_exporter_prometheus\<close>)
  is represented by what it is told: a counter per label set and the samples of a histogram in
  order. A sample is the exact quotient; the rounding of its \<^verbatim>\<open>f64\<close> is not modelled.
\<close>

record labels =
  lb_scope :: string
  lb_principal :: string
  lb_status :: string

record metrics =
  requests_total :: "labels \<Rightarrow> nat"
  proxy_latency_seconds :: "string \<Rightarrow> rat list"
  auth_failures_total :: nat
  authz_denied_total :: nat
  parse_errors_total :: nat
  rate_limited_total :: nat

definition metrics_start :: metrics where
  "metrics_start =
     \<lparr>requests_total = (\<lambda>_. 0), proxy_latency_seconds = (\<lambda>_. []), auth_failures_total = 0,
      authz_denied_total = 0, parse_errors_total = 0, rate_limited_total = 0\<rparr>"

definition record_request :: "string \<Rightarrow> string \<Rightarrow> u16 \<Rightarrow> rat \<Rightarrow> metrics \<Rightarrow> metrics" where
  "record_request s p status latency_seconds m =
     (let key = \<lparr>lb_scope = s, lb_principal = p, lb_status = dec (unat status)\<rparr> in
      m\<lparr>requests_total := (requests_total m)(key := Suc (requests_total m key)),
        proxy_latency_seconds :=
          (proxy_latency_seconds m)(s := proxy_latency_seconds m s @ [latency_seconds])\<rparr>)"

definition inc_auth_failure :: "metrics \<Rightarrow> metrics" where
  "inc_auth_failure m = m\<lparr>auth_failures_total := Suc (auth_failures_total m)\<rparr>"

definition inc_authz_denied :: "metrics \<Rightarrow> metrics" where
  "inc_authz_denied m = m\<lparr>authz_denied_total := Suc (authz_denied_total m)\<rparr>"

definition inc_parse_error :: "metrics \<Rightarrow> metrics" where
  "inc_parse_error m = m\<lparr>parse_errors_total := Suc (parse_errors_total m)\<rparr>"

definition inc_rate_limited :: "metrics \<Rightarrow> metrics" where
  "inc_rate_limited m = m\<lparr>rate_limited_total := Suc (rate_limited_total m)\<rparr>"

text \<open>Installing the recorder: \<open>install\<close> gives the handle that renders it, or an error text.\<close>

definition install_recorder :: "('h, string) result \<Rightarrow> ('h, string) result" where
  "install_recorder install = map_err (\<lambda>e. ''installing Prometheus recorder: '' @ e) install"

text \<open>
  The server of the exposition: \<open>render\<close> prints the recorder, \<open>text_response\<close> and
  \<open>other_response\<close> are the framework's, \<open>bind\<close> binds the address and \<open>run\<close> is the end of serving.
\<close>

definition metrics_app ::
  "('h \<Rightarrow> string) \<Rightarrow> (string \<Rightarrow> 'resp) \<Rightarrow> (string \<Rightarrow> string \<Rightarrow> 'resp) \<Rightarrow> 'h \<Rightarrow> string \<Rightarrow> string \<Rightarrow> 'resp" where
  "metrics_app render text_response other_response handle method path =
     (if path = ''/metrics'' \<and> method = ''GET'' then text_response (render handle)
      else other_response method path)"

definition metrics_serve ::
  "(string \<Rightarrow> (unit, string) result) \<Rightarrow> ((string \<Rightarrow> string \<Rightarrow> 'resp) \<Rightarrow> (unit, string) result) \<Rightarrow>
   (string \<Rightarrow> string \<Rightarrow> 'resp) \<Rightarrow> string \<Rightarrow> (unit, string) result" where
  "metrics_serve bind run app addr = and_then (bind addr) (\<lambda>_. run app)"

lemmas inc_defs = inc_auth_failure_def inc_authz_denied_def inc_parse_error_def inc_rate_limited_def

section \<open>Counting\<close>

text \<open>
  The latency samples of a scope are as many as the requests counted for it, over all principals and
  statuses. \<open>counted\<close> sums a counter over a finite set of labels that holds all labels in use.
\<close>

definition support :: "metrics \<Rightarrow> labels set" where
  "support m = {k. requests_total m k \<noteq> 0}"

definition counted :: "metrics \<Rightarrow> string \<Rightarrow> nat" where
  "counted m s = (\<Sum>k \<in> {k \<in> support m. lb_scope k = s}. requests_total m k)"

definition metrics_ok :: "metrics \<Rightarrow> bool" where
  "metrics_ok m \<longleftrightarrow> finite (support m) \<and> (\<forall>s. counted m s = length (proxy_latency_seconds m s))"

lemma metrics_ok_start: "metrics_ok metrics_start"
  by (simp add: metrics_ok_def counted_def support_def metrics_start_def)

lemma metrics_ok_inc:
  "metrics_ok m \<Longrightarrow> metrics_ok (inc_auth_failure m)"
  "metrics_ok m \<Longrightarrow> metrics_ok (inc_authz_denied m)"
  "metrics_ok m \<Longrightarrow> metrics_ok (inc_parse_error m)"
  "metrics_ok m \<Longrightarrow> metrics_ok (inc_rate_limited m)"
  by (simp_all add: metrics_ok_def counted_def support_def inc_defs)

lemma sum_count_up:
  fixes f :: "'a \<Rightarrow> nat"
  assumes "finite A"
  shows "sum (f(x := Suc (f x))) (insert x A) = Suc (f x + sum f (A - {x}))"
proof -
  have "sum (f(x := Suc (f x))) (A - {x}) = sum f (A - {x})" by (rule sum.cong) auto
  with assms show ?thesis by (simp only: sum.insert_remove fun_upd_same add_Suc)
qed

lemma counted_record_request:
  assumes "finite (support m)"
  shows "counted (record_request s p st t m) s' = counted m s' + (if s' = s then 1 else 0)"
proof -
  let ?key = "\<lparr>lb_scope = s, lb_principal = p, lb_status = dec (unat st)\<rparr>"
  let ?m = "record_request s p st t m" and ?f = "requests_total m"
  let ?S = "\<lambda>m. {k \<in> support m. lb_scope k = s'}"
  have tot: "requests_total ?m = ?f(?key := Suc (?f ?key))"
    by (simp add: record_request_def Let_def)
  have sup: "support ?m = insert ?key (support m)"
    by (auto simp: support_def tot)
  show ?thesis
  proof (cases "s' = s")
    case True
    have "?S ?m = insert ?key (?S m)" using True by (auto simp: sup)
    moreover from assms have fin: "finite (?S m)" by simp
    ultimately have "counted ?m s' = Suc (?f ?key + (\<Sum>k \<in> ?S m - {?key}. ?f k))"
      unfolding counted_def tot using sum_count_up [OF fin, of ?f ?key] by (simp only:)
    moreover have "(\<Sum>k \<in> ?S m - {?key}. ?f k) + ?f ?key = counted m s'"
    proof (cases "?key \<in> ?S m")
      case True
      from sum.remove [OF fin this, of ?f] show ?thesis unfolding counted_def by simp
    next
      case False
      with True have "?f ?key = 0" by (simp add: support_def \<open>s' = s\<close>)
      with False show ?thesis unfolding counted_def by simp
    qed
    ultimately show ?thesis using True by simp
  next
    case False
    then have "?S ?m = ?S m" by (auto simp: sup)
    with False show ?thesis unfolding counted_def by (auto simp: tot intro!: sum.cong)
  qed
qed

lemma metrics_ok_record_request: "metrics_ok m \<Longrightarrow> metrics_ok (record_request s p st t m)"
proof -
  assume ok: "metrics_ok m"
  then have fin: "finite (support m)" by (simp add: metrics_ok_def)
  moreover have "support (record_request s p st t m) \<subseteq>
      insert \<lparr>lb_scope = s, lb_principal = p, lb_status = dec (unat st)\<rparr> (support m)"
    by (auto simp: support_def record_request_def Let_def split: if_splits)
  ultimately have "finite (support (record_request s p st t m))"
    by (meson finite_insert finite_subset)
  moreover have "proxy_latency_seconds (record_request s p st t m) s' =
      proxy_latency_seconds m s' @ (if s' = s then [t] else [])" for s'
    by (simp add: record_request_def Let_def)
  ultimately show ?thesis
    using ok fin by (simp add: metrics_ok_def counted_record_request)
qed

end
