(* ===== verification/Iga_Server.thy ===== *)
theory Iga_Server
  imports Iga_Auth Iga_Authz Iga_Ratelimit Iga_Proxy Iga_Audit Iga_Metrics
begin

text \<open>
  The request pipeline (\<^verbatim>\<open>src/src/server.rs\<close>): the application state, the router, the
  handler and its helpers.

  The handler is one asynchronous function. It is modelled as the composition of three stages, cut
  where it awaits: authentication (up to the reading of the body), admission (classification,
  authorization and the rate limit, up to the sending of the request) and completion (metrics, audit
  and response after the upstream has answered). What the handler changes is a \<open>gateway\<close>: the
  shared application state with the limiters inside it, the audit log, the metrics, the requests
  handed to the HTTP client and the warnings traced.

  An \<open>ext\<close> holds what the handler gets from code outside the repository while it serves one
  request: the conversion of a header value to text, the comparison of tokens, the decoder of
  JSON web tokens, the reading of the body up to a limit, the JSON and GraphQL parsers and printers,
  the keyed limiter and its clock, the HTTP client, the digest, the time stamp, the elapsed
  milliseconds, the audit device, and whether the response builder accepts its parts.
\<close>

section \<open>State\<close>

record ('k, 'l, 't, 'b, 'r) ext =
  x_to_str :: "bytes \<Rightarrow> string option"
  x_ct_eq :: "bytes \<Rightarrow> bytes \<Rightarrow> bool"
  x_decode :: "string \<Rightarrow> 'k \<Rightarrow> validation \<Rightarrow> (json, string) result"
  x_to_bytes :: "'r \<Rightarrow> usize \<Rightarrow> (bytes, string) result"
  x_from_slice :: "bytes \<Rightarrow> (raw_body, string) result"
  x_parse_query :: "string \<Rightarrow> (executable_document, string) result"
  x_value_from_slice :: "bytes \<Rightarrow> json option"
  x_check_key :: "'t \<Rightarrow> 'l \<Rightarrow> string \<Rightarrow> bool \<times> 'l"
  x_clock :: 't
  x_send :: "upstream_request \<Rightarrow> ('b upstream_reply, string) result"
  x_read_bytes :: "'b \<Rightarrow> (bytes, string) result"
  x_to_vec :: "json \<Rightarrow> bytes option"
  x_sha256_hex :: "bytes \<Rightarrow> string"
  x_to_string :: "json \<Rightarrow> string option"
  x_json_print :: "json \<Rightarrow> string"
  x_now :: string
  x_elapsed_ms :: nat
  x_io :: audit_io
  x_builder_ok :: bool

record ('k, 'l) inner =
  in_authenticator :: "'k authenticator"
  in_policy :: policy
  in_proxy :: proxy
  in_audit :: audit_sink
  in_rate_limiters :: "'l rate_limiters"
  in_allow_anonymous_read :: bool
  in_fail_closed_on_parse_error :: bool
  in_audit_reads :: bool
  in_log_variables :: bool
  in_body_limit :: usize

record app_options =
  op_audit_reads :: bool
  op_log_variables :: bool
  op_body_limit :: usize

record ('k, 'l) gateway =
  gw_inner :: "('k, 'l) inner"
  gw_audit :: audit_log
  gw_metrics :: metrics
  gw_sent :: "upstream_request list"
  gw_warnings :: "string list"

record 'r request =
  rq_method :: http_method
  rq_path_and_query :: "string option"
  rq_path :: string
  rq_headers :: headers
  rq_peer_ip :: string
  rq_client_cert :: "client_cert option"
  rq_body :: 'r

record response =
  rs_status :: status_code
  rs_headers :: headers
  rs_body :: bytes

definition app_options_default :: app_options where
  "app_options_default =
     \<lparr>op_audit_reads = False, op_log_variables = False, op_body_limit = 1024 * 1024\<rparr>"

definition app_state_new ::
  "(u32 \<Rightarrow> nat \<Rightarrow> 'q option) \<Rightarrow> ('q \<Rightarrow> 'l) \<Rightarrow> config \<Rightarrow> 'k authenticator \<Rightarrow> proxy \<Rightarrow> audit_sink \<Rightarrow>
   app_options \<Rightarrow> ('k, 'l) inner" where
  "app_state_new quota_new keyed config auth px audit options =
     \<lparr>in_authenticator = auth,
      in_policy = cf_policy config,
      in_proxy = px,
      in_audit = audit,
      in_rate_limiters =
        rate_limiters_new quota_new keyed (rl_read_per_minute (cf_ratelimit config))
          (rl_write_per_minute (cf_ratelimit config)),
      in_allow_anonymous_read = au_allow_anonymous_read (cf_auth config),
      in_fail_closed_on_parse_error = po_fail_closed_on_parse_error (cf_policy config),
      in_audit_reads = op_audit_reads options,
      in_log_variables = op_log_variables options,
      in_body_limit = op_body_limit options\<rparr>"

section \<open>Helpers\<close>

definition read_only :: classification where
  "read_only = \<lparr>cl_operations = [], cl_scope = ScopeRead\<rparr>"

definition write_only :: classification where
  "write_only = \<lparr>cl_operations = [], cl_scope = ScopeWrite\<rparr>"

definition classify_request ::
  "(bytes \<Rightarrow> (raw_body, string) result) \<Rightarrow> (string \<Rightarrow> (executable_document, string) result) \<Rightarrow>
   http_method \<Rightarrow> upstream_target \<Rightarrow> bytes \<Rightarrow> bool \<Rightarrow> (classification, string) result" where
  "classify_request from_slice parse_query method target body fail_closed =
     (if method = ''GET'' then Ok read_only
      else if target = GraphNodeAdmin then Ok write_only
      else
        case classify from_slice parse_query body of
          Inr c \<Rightarrow> Ok c
        | Inl e \<Rightarrow>
            if fail_closed then Err (''could not classify request: '' @ classify_error_display e)
            else Ok read_only)"

fun scope_str :: "scope \<Rightarrow> string" where
  "scope_str ScopeRead = ''read''"
| "scope_str ScopeWrite = ''write''"

text \<open>\<^verbatim>\<open>Iterator::find_map\<close> over the names.\<close>

fun find_name :: "operation_info list \<Rightarrow> string option" where
  "find_name [] = None"
| "find_name (p # ops) = (case oi_name p of Some n \<Rightarrow> Some n | None \<Rightarrow> find_name ops)"

definition first_op_name :: "classification \<Rightarrow> string option" where
  "first_op_name c = find_name (cl_operations c)"

definition top_fields :: "classification \<Rightarrow> string list" where
  "top_fields c = concat (map oi_top_level_fields (cl_operations c))"

definition extract_bearer :: "(bytes \<Rightarrow> string option) \<Rightarrow> headers \<Rightarrow> string option" where
  "extract_bearer to_str headers =
     Option.bind (header_get headers ''authorization'')
       (\<lambda>value. Option.bind (to_str value)
          (\<lambda>s. map_option trim (strip_prefix ''Bearer '' s)))"

definition extract_variables :: "(bytes \<Rightarrow> json option) \<Rightarrow> bytes \<Rightarrow> json option" where
  "extract_variables value_from_slice body =
     Option.bind (value_from_slice body)
       (\<lambda>value.
          case value of
            JObject members \<Rightarrow> map_remove members ''variables''
          | JArray items \<Rightarrow>
              let vars = List.map_filter
                    (\<lambda>item. Option.bind (as_object item) (\<lambda>m. map_remove m ''variables'')) items
              in if vars = [] then None else Some (JArray vars)
          | _ \<Rightarrow> None)"

definition error_response :: "(json \<Rightarrow> string) \<Rightarrow> status_code \<Rightarrow> string \<Rightarrow> bool \<Rightarrow> response" where
  "error_response json_print status message www_authenticate =
     \<lparr>rs_status = status,
      rs_headers = [(''content-type'', ''application/json'')] @
        (if www_authenticate then [(''www-authenticate'', ''Bearer'')] else []),
      rs_body = json_print (JObject [(''error'', JString message)])\<rparr>"

definition relay_response :: "(json \<Rightarrow> string) \<Rightarrow> bool \<Rightarrow> proxy_response \<Rightarrow> response" where
  "relay_response json_print builder_ok up =
     (if builder_ok
      then \<lparr>rs_status = prs_status up, rs_headers = filter_response_headers (prs_headers up),
            rs_body = prs_body up\<rparr>
      else error_response json_print 502 ''bad upstream response'' False)"

definition emit_record ::
  "('k, 'l, 't, 'b, 'r) ext \<Rightarrow> audit_record \<Rightarrow> ('k, 'l) gateway \<Rightarrow> ('k, 'l) gateway" where
  "emit_record x r gw =
     gw\<lparr>gw_audit := emit (x_to_string x) (x_io x) (in_audit (gw_inner gw)) r (gw_audit gw)\<rparr>"

definition count_metric :: "(metrics \<Rightarrow> metrics) \<Rightarrow> ('k, 'l) gateway \<Rightarrow> ('k, 'l) gateway" where
  "count_metric f gw = gw\<lparr>gw_metrics := f (gw_metrics gw)\<rparr>"

definition pre_upstream_record ::
  "string \<Rightarrow> principal \<Rightarrow> string \<Rightarrow> classification option \<Rightarrow> outcome \<Rightarrow> audit_record" where
  "pre_upstream_record now p source_ip classification oc =
     \<lparr>ar_timestamp = now,
      ar_principal = pr_name p,
      ar_source_ip = Some source_ip,
      ar_scope = map_option cl_scope classification,
      ar_operation_name = Option.bind classification first_op_name,
      ar_operation_kinds =
        (case classification of Some c \<Rightarrow> map oi_kind (cl_operations c) | None \<Rightarrow> []),
      ar_top_level_fields = (case classification of Some c \<Rightarrow> top_fields c | None \<Rightarrow> []),
      ar_variables_hash = None,
      ar_variables = None,
      ar_outcome = oc,
      ar_upstream_status = None,
      ar_latency_ms = None\<rparr>"

definition audit_pre_upstream ::
  "('k, 'l, 't, 'b, 'r) ext \<Rightarrow> principal \<Rightarrow> string \<Rightarrow> classification option \<Rightarrow> outcome \<Rightarrow>
   ('k, 'l) gateway \<Rightarrow> ('k, 'l) gateway" where
  "audit_pre_upstream x p source_ip classification oc =
     emit_record x (pre_upstream_record (x_now x) p source_ip classification oc)"

section \<open>The handler\<close>

definition request_target :: "'r request \<Rightarrow> string" where
  "request_target rq = (case rq_path_and_query rq of Some pq \<Rightarrow> pq | None \<Rightarrow> rq_path rq)"

definition auth_failed_record :: "string \<Rightarrow> string \<Rightarrow> auth_error \<Rightarrow> audit_record" where
  "auth_failed_record now source_ip e =
     \<lparr>ar_timestamp = now, ar_principal = ''-'', ar_source_ip = Some source_ip, ar_scope = None,
      ar_operation_name = None, ar_operation_kinds = [], ar_top_level_fields = [],
      ar_variables_hash = None, ar_variables = None, ar_outcome = AuthFailed (auth_error_display e),
      ar_upstream_status = None, ar_latency_ms = None\<rparr>"

text \<open>Authentication. An early return is an \<^term>\<open>Inl\<close> with the response.\<close>

definition authn_stage ::
  "('k, 'l, 't, 'b, 'r) ext \<Rightarrow> 'r request \<Rightarrow> ('k, 'l) gateway \<Rightarrow>
   (principal, response) result \<times> ('k, 'l) gateway" where
  "authn_stage x rq gw =
     (let st = gw_inner gw;
          creds = \<lparr>cr_bearer = extract_bearer (x_to_str x) (rq_headers rq),
                   cr_client_cert = rq_client_cert rq\<rparr>
      in case authenticate (x_ct_eq x) (x_decode x) (in_authenticator st) creds (in_allow_anonymous_read st) of
           Inr p \<Rightarrow> (Ok p, gw)
         | Inl e \<Rightarrow>
             (Err (error_response (x_json_print x) 401 ''unauthorized'' True),
              count_metric inc_auth_failure
                (emit_record x (auth_failed_record (x_now x) (rq_peer_ip rq) e) gw)))"

text \<open>The limiters are inside the shared state, behind interior mutability.\<close>

definition check_limit ::
  "('k, 'l, 't, 'b, 'r) ext \<Rightarrow> scope \<Rightarrow> string \<Rightarrow> ('k, 'l) gateway \<Rightarrow> bool \<times> ('k, 'l) gateway" where
  "check_limit x s name gw =
     (let (ok, limiters) = check (x_check_key x) (x_clock x) (in_rate_limiters (gw_inner gw)) s name
      in (ok, gw\<lparr>gw_inner := (gw_inner gw)\<lparr>in_rate_limiters := limiters\<rparr>\<rparr>))"

text \<open>Reading the body, classification, authorization and the rate limit.\<close>

definition admit_stage ::
  "('k, 'l, 't, 'b, 'r) ext \<Rightarrow> 'r request \<Rightarrow> principal \<Rightarrow> ('k, 'l) gateway \<Rightarrow>
   (bytes \<times> classification, response) result \<times> ('k, 'l) gateway" where
  "admit_stage x rq p gw =
     (let st = gw_inner gw in
      case x_to_bytes x (rq_body rq) (in_body_limit st) of
        Inl _ \<Rightarrow> (Err (error_response (x_json_print x) 413 ''request body too large'' False), gw)
      | Inr body_bytes \<Rightarrow>
          let (target, _) = route (request_target rq) in
          case classify_request (x_from_slice x) (x_parse_query x) (rq_method rq) target body_bytes
                 (in_fail_closed_on_parse_error st) of
            Inl reason \<Rightarrow>
              (Err (error_response (x_json_print x) 400 reason False),
               count_metric inc_parse_error
                 (audit_pre_upstream x p (rq_peer_ip rq) None (Rejected reason) gw))
          | Inr c \<Rightarrow>
              case authorize p c (in_policy st) of
                Inl d \<Rightarrow>
                  (Err (error_response (x_json_print x) 403 (denied_display d) False),
                   count_metric inc_authz_denied
                     (audit_pre_upstream x p (rq_peer_ip rq) (Some c) (Denied (denied_display d)) gw))
              | Inr _ \<Rightarrow>
                  let (ok, gw') = check_limit x (cl_scope c) (pr_name p) gw in
                  if \<not> ok then
                    (Err (error_response (x_json_print x) 429 ''rate limit exceeded'' False),
                     count_metric inc_rate_limited
                       (audit_pre_upstream x p (rq_peer_ip rq) (Some c) RateLimited gw'))
                  else (Ok (body_bytes, c), gw'))"

definition allowed_record ::
  "string \<Rightarrow> principal \<Rightarrow> string \<Rightarrow> classification \<Rightarrow> string option \<Rightarrow> json option \<Rightarrow> u16 option \<Rightarrow> u64 \<Rightarrow>
   audit_record" where
  "allowed_record now p source_ip c variables_hash variables upstream_status latency_ms =
     \<lparr>ar_timestamp = now, ar_principal = pr_name p, ar_source_ip = Some source_ip,
      ar_scope = Some (cl_scope c), ar_operation_name = first_op_name c,
      ar_operation_kinds = map oi_kind (cl_operations c), ar_top_level_fields = top_fields c,
      ar_variables_hash = variables_hash, ar_variables = variables, ar_outcome = Allowed,
      ar_upstream_status = upstream_status, ar_latency_ms = Some latency_ms\<rparr>"

fun proxy_error_status :: "proxy_error \<Rightarrow> status_code" where
  "proxy_error_status (NoUpstream _) = 404"
| "proxy_error_status _ = 502"

text \<open>
  After the upstream has answered. The elapsed time is a \<^verbatim>\<open>u128\<close> of milliseconds cast to
  \<^verbatim>\<open>u64\<close>, which keeps its low 64 bits.
\<close>

definition finish_stage ::
  "('k, 'l, 't, 'b, 'r) ext \<Rightarrow> 'r request \<Rightarrow> principal \<Rightarrow> classification \<Rightarrow> json option \<Rightarrow>
   (proxy_response, proxy_error) result \<Rightarrow> ('k, 'l) gateway \<Rightarrow> response \<times> ('k, 'l) gateway" where
  "finish_stage x rq p c variables result gw =
     (let st = gw_inner gw;
          variables_hash = map_option (hash_variables (x_to_vec x) (x_sha256_hex x)) variables;
          latency_ms = (of_nat (x_elapsed_ms x) :: u64);
          latency_seconds = (of_nat (unat latency_ms) / 1000 :: rat)
      in case result of
           Inr up \<Rightarrow>
             let gw1 = count_metric
                   (record_request (scope_str (cl_scope c)) (pr_name p) (prs_status up) latency_seconds) gw;
                 should_audit = (cl_scope c = ScopeWrite \<or> in_audit_reads st);
                 gw2 = (if should_audit
                   then emit_record x
                     (allowed_record (x_now x) p (rq_peer_ip rq) c variables_hash
                       (if in_log_variables st then variables else None) (Some (prs_status up)) latency_ms) gw1
                   else gw1)
             in (relay_response (x_json_print x) (x_builder_ok x) up, gw2)
         | Inl e \<Rightarrow>
             let status = proxy_error_status e;
                 gw1 = count_metric
                   (record_request (scope_str (cl_scope c)) (pr_name p) status latency_seconds) gw;
                 gw2 = emit_record x
                   (allowed_record (x_now x) p (rq_peer_ip rq) c variables_hash None None latency_ms) gw1;
                 gw3 = gw2\<lparr>gw_warnings := gw_warnings gw2 @ [''upstream request failed: '' @ proxy_error_display e]\<rparr>
             in (error_response (x_json_print x) status ''upstream unavailable'' False, gw3))"

definition forward_stage ::
  "('k, 'l, 't, 'b, 'r) ext \<Rightarrow> 'r request \<Rightarrow> principal \<Rightarrow> bytes \<Rightarrow> classification \<Rightarrow> ('k, 'l) gateway \<Rightarrow>
   response \<times> ('k, 'l) gateway" where
  "forward_stage x rq p body_bytes c gw =
     (let variables = extract_variables (x_value_from_slice x) body_bytes;
          (result, sent) = forward (x_send x) (x_read_bytes x) (in_proxy (gw_inner gw)) (gw_sent gw)
            (rq_method rq) (request_target rq) (rq_headers rq) body_bytes
      in finish_stage x rq p c variables result (gw\<lparr>gw_sent := sent\<rparr>))"

definition handle ::
  "('k, 'l, 't, 'b, 'r) ext \<Rightarrow> 'r request \<Rightarrow> ('k, 'l) gateway \<Rightarrow> response \<times> ('k, 'l) gateway" where
  "handle x rq gw =
     (case authn_stage x rq gw of
        (Inl resp, gw1) \<Rightarrow> (resp, gw1)
      | (Inr p, gw1) \<Rightarrow>
          (case admit_stage x rq p gw1 of
             (Inl resp, gw2) \<Rightarrow> (resp, gw2)
           | (Inr (body_bytes, c), gw2) \<Rightarrow> forward_stage x rq p body_bytes c gw2))"

section \<open>The router\<close>

text \<open>
  The probes answer \<^verbatim>\<open>GET\<close> with a text; \<open>text_response\<close> is the framework's conversion of
  that text and \<open>other_method\<close> its answer to any other method on these two routes.
\<close>

definition health :: string where
  "health = ''ok''"

definition build_router ::
  "(string \<Rightarrow> response) \<Rightarrow> (http_method \<Rightarrow> response) \<Rightarrow> ('k, 'l, 't, 'b, 'r) ext \<Rightarrow> 'r request \<Rightarrow>
   ('k, 'l) gateway \<Rightarrow> response \<times> ('k, 'l) gateway" where
  "build_router text_response other_method x rq gw =
     (if rq_path rq = ''/healthz'' \<or> rq_path rq = ''/readyz''
      then (if rq_method rq = ''GET'' then text_response health else other_method (rq_method rq), gw)
      else handle x rq gw)"

end
