(* ===== verification/Iga_Pipeline.thy ===== *)
theory Iga_Pipeline
  imports Iga_Server Iga_Refill
begin

text \<open>
  The specification of the request pipeline and its refinement. A request meets one of six
  \<open>decision\<close>s, a pure function of the request and of the shared state; the decision determines the
  response, the one audit record if any, the metric, the requests sent and the limiters. The lemmas
  \<open>handle_sent\<close>, \<open>handle_audit\<close>, \<open>handle_metrics\<close>, \<open>handle_inner\<close> and \<open>handle_response\<close> say that
  the handler of \<open>Iga_Server\<close> does just that.
\<close>

section \<open>Decisions\<close>

datatype decision =
    Unauthenticated auth_error
  | TooLarge
  | Unclassifiable principal string
  | Forbidden principal classification denied
  | OverBudget principal classification
  | Forward principal bytes classification

definition verdict :: "('k, 'l, 't, 'b, 'r) ext \<Rightarrow> 'r request \<Rightarrow> ('k, 'l) inner \<Rightarrow> (principal, auth_error) result" where
  "verdict x rq st =
     authenticate (x_ct_eq x) (x_decode x) (in_authenticator st)
       \<lparr>cr_bearer = extract_bearer (x_to_str x) (rq_headers rq), cr_client_cert = rq_client_cert rq\<rparr>
       (in_allow_anonymous_read st)"

definition classified ::
  "('k, 'l, 't, 'b, 'r) ext \<Rightarrow> 'r request \<Rightarrow> ('k, 'l) inner \<Rightarrow> bytes \<Rightarrow> (classification, string) result" where
  "classified x rq st body =
     classify_request (x_from_slice x) (x_parse_query x) (rq_method rq) (fst (route (request_target rq)))
       body (in_fail_closed_on_parse_error st)"

definition within_budget :: "('k, 'l, 't, 'b, 'r) ext \<Rightarrow> ('k, 'l) inner \<Rightarrow> principal \<Rightarrow> classification \<Rightarrow> bool" where
  "within_budget x st p c =
     fst (check (x_check_key x) (x_clock x) (in_rate_limiters st) (cl_scope c) (pr_name p))"

definition charged ::
  "('k, 'l, 't, 'b, 'r) ext \<Rightarrow> ('k, 'l) inner \<Rightarrow> principal \<Rightarrow> classification \<Rightarrow> 'l rate_limiters" where
  "charged x st p c =
     snd (check (x_check_key x) (x_clock x) (in_rate_limiters st) (cl_scope c) (pr_name p))"

definition decide_on_body ::
  "('k, 'l, 't, 'b, 'r) ext \<Rightarrow> 'r request \<Rightarrow> ('k, 'l) inner \<Rightarrow> principal \<Rightarrow> bytes \<Rightarrow> decision" where
  "decide_on_body x rq st p body =
     (case classified x rq st body of
        Inl reason \<Rightarrow> Unclassifiable p reason
      | Inr c \<Rightarrow>
          (case authorize p c (in_policy st) of
             Inl d \<Rightarrow> Forbidden p c d
           | Inr _ \<Rightarrow> if within_budget x st p c then Forward p body c else OverBudget p c))"

definition decide :: "('k, 'l, 't, 'b, 'r) ext \<Rightarrow> 'r request \<Rightarrow> ('k, 'l) inner \<Rightarrow> decision" where
  "decide x rq st =
     (case verdict x rq st of
        Inl e \<Rightarrow> Unauthenticated e
      | Inr p \<Rightarrow>
          (case x_to_bytes x (rq_body rq) (in_body_limit st) of
             Inl _ \<Rightarrow> TooLarge
           | Inr body \<Rightarrow> decide_on_body x rq st p body))"

lemma decide_Forward_iff:
  "decide x rq st = Forward p body c \<longleftrightarrow>
     verdict x rq st = Ok p \<and> x_to_bytes x (rq_body rq) (in_body_limit st) = Ok body \<and>
     classified x rq st body = Ok c \<and> (\<exists>r. authorize p c (in_policy st) = Ok r) \<and> within_budget x st p c"
  by (auto simp: decide_def decide_on_body_def split: sum.splits if_splits)

lemma decide_OverBudget_iff:
  "decide x rq st = OverBudget p c \<longleftrightarrow>
     verdict x rq st = Ok p \<and>
     (\<exists>body. x_to_bytes x (rq_body rq) (in_body_limit st) = Ok body \<and> classified x rq st body = Ok c) \<and>
     (\<exists>r. authorize p c (in_policy st) = Ok r) \<and> \<not> within_budget x st p c"
  by (auto simp: decide_def decide_on_body_def split: sum.splits if_splits)

lemma decide_Unauthenticated_iff: "decide x rq st = Unauthenticated e \<longleftrightarrow> verdict x rq st = Err e"
  by (auto simp: decide_def decide_on_body_def split: sum.splits if_splits)

lemma decide_TooLarge_iff:
  "decide x rq st = TooLarge \<longleftrightarrow>
     (\<exists>p e. verdict x rq st = Ok p \<and> x_to_bytes x (rq_body rq) (in_body_limit st) = Err e)"
  by (auto simp: decide_def decide_on_body_def split: sum.splits if_splits)

lemma decide_Unclassifiable_iff:
  "decide x rq st = Unclassifiable p reason \<longleftrightarrow>
     verdict x rq st = Ok p \<and>
     (\<exists>body. x_to_bytes x (rq_body rq) (in_body_limit st) = Ok body \<and> classified x rq st body = Err reason)"
  by (auto simp: decide_def decide_on_body_def split: sum.splits if_splits)

lemma decide_Forbidden_iff:
  "decide x rq st = Forbidden p c d \<longleftrightarrow>
     verdict x rq st = Ok p \<and>
     (\<exists>body. x_to_bytes x (rq_body rq) (in_body_limit st) = Ok body \<and> classified x rq st body = Ok c) \<and>
     authorize p c (in_policy st) = Err d"
  by (auto simp: decide_def decide_on_body_def split: sum.splits if_splits)

lemmas decide_iffs = decide_Unauthenticated_iff decide_TooLarge_iff decide_Unclassifiable_iff
  decide_Forbidden_iff decide_OverBudget_iff decide_Forward_iff

section \<open>What a decision entails\<close>

definition upstream_result ::
  "('k, 'l, 't, 'b, 'r) ext \<Rightarrow> 'r request \<Rightarrow> ('k, 'l) gateway \<Rightarrow> bytes \<Rightarrow>
   (proxy_response, proxy_error) result \<times> upstream_request list" where
  "upstream_result x rq gw body =
     forward (x_send x) (x_read_bytes x) (in_proxy (gw_inner gw)) (gw_sent gw) (rq_method rq)
       (request_target rq) (rq_headers rq) body"

definition elapsed :: "('k, 'l, 't, 'b, 'r) ext \<Rightarrow> u64" where
  "elapsed x = of_nat (x_elapsed_ms x)"

text \<open>The status recorded for a forwarded request.\<close>

definition result_status :: "(proxy_response, proxy_error) result \<Rightarrow> status_code" where
  "result_status r = (case r of Inr up \<Rightarrow> prs_status up | Inl e \<Rightarrow> proxy_error_status e)"

fun decision_sent ::
  "('k, 'l, 't, 'b, 'r) ext \<Rightarrow> 'r request \<Rightarrow> ('k, 'l) gateway \<Rightarrow> decision \<Rightarrow> upstream_request list" where
  "decision_sent x rq gw (Forward p body c) = snd (upstream_result x rq gw body)"
| "decision_sent x rq gw _ = gw_sent gw"

fun decision_limiters ::
  "('k, 'l, 't, 'b, 'r) ext \<Rightarrow> ('k, 'l) inner \<Rightarrow> decision \<Rightarrow> 'l rate_limiters" where
  "decision_limiters x st (Forward p body c) = charged x st p c"
| "decision_limiters x st (OverBudget p c) = charged x st p c"
| "decision_limiters x st _ = in_rate_limiters st"

fun decision_record ::
  "('k, 'l, 't, 'b, 'r) ext \<Rightarrow> 'r request \<Rightarrow> ('k, 'l) gateway \<Rightarrow> decision \<Rightarrow> audit_record option" where
  "decision_record x rq gw (Unauthenticated e) = Some (auth_failed_record (x_now x) (rq_peer_ip rq) e)"
| "decision_record x rq gw TooLarge = None"
| "decision_record x rq gw (Unclassifiable p reason) =
     Some (pre_upstream_record (x_now x) p (rq_peer_ip rq) None (Rejected reason))"
| "decision_record x rq gw (Forbidden p c d) =
     Some (pre_upstream_record (x_now x) p (rq_peer_ip rq) (Some c) (Denied (denied_display d)))"
| "decision_record x rq gw (OverBudget p c) =
     Some (pre_upstream_record (x_now x) p (rq_peer_ip rq) (Some c) RateLimited)"
| "decision_record x rq gw (Forward p body c) =
     (let variables = extract_variables (x_value_from_slice x) body;
          hash = map_option (hash_variables (x_to_vec x) (x_sha256_hex x)) variables
      in case fst (upstream_result x rq gw body) of
           Inl e \<Rightarrow> Some (allowed_record (x_now x) p (rq_peer_ip rq) c hash None None (elapsed x))
         | Inr up \<Rightarrow>
             if cl_scope c = ScopeWrite \<or> in_audit_reads (gw_inner gw)
             then Some (allowed_record (x_now x) p (rq_peer_ip rq) c hash
               (if in_log_variables (gw_inner gw) then variables else None) (Some (prs_status up)) (elapsed x))
             else None)"

fun decision_metric ::
  "('k, 'l, 't, 'b, 'r) ext \<Rightarrow> 'r request \<Rightarrow> ('k, 'l) gateway \<Rightarrow> decision \<Rightarrow> metrics \<Rightarrow> metrics" where
  "decision_metric x rq gw (Unauthenticated e) = inc_auth_failure"
| "decision_metric x rq gw TooLarge = (\<lambda>m. m)"
| "decision_metric x rq gw (Unclassifiable p reason) = inc_parse_error"
| "decision_metric x rq gw (Forbidden p c d) = inc_authz_denied"
| "decision_metric x rq gw (OverBudget p c) = inc_rate_limited"
| "decision_metric x rq gw (Forward p body c) =
     record_request (scope_str (cl_scope c)) (pr_name p)
       (result_status (fst (upstream_result x rq gw body))) (of_nat (unat (elapsed x)) / 1000)"

fun decision_response ::
  "('k, 'l, 't, 'b, 'r) ext \<Rightarrow> 'r request \<Rightarrow> ('k, 'l) gateway \<Rightarrow> decision \<Rightarrow> response" where
  "decision_response x rq gw (Unauthenticated e) = error_response (x_json_print x) 401 ''unauthorized'' True"
| "decision_response x rq gw TooLarge = error_response (x_json_print x) 413 ''request body too large'' False"
| "decision_response x rq gw (Unclassifiable p reason) = error_response (x_json_print x) 400 reason False"
| "decision_response x rq gw (Forbidden p c d) = error_response (x_json_print x) 403 (denied_display d) False"
| "decision_response x rq gw (OverBudget p c) = error_response (x_json_print x) 429 ''rate limit exceeded'' False"
| "decision_response x rq gw (Forward p body c) =
     (case fst (upstream_result x rq gw body) of
        Inr up \<Rightarrow> relay_response (x_json_print x) (x_builder_ok x) up
      | Inl e \<Rightarrow> error_response (x_json_print x) (proxy_error_status e) ''upstream unavailable'' False)"

fun decision_warnings ::
  "('k, 'l, 't, 'b, 'r) ext \<Rightarrow> 'r request \<Rightarrow> ('k, 'l) gateway \<Rightarrow> decision \<Rightarrow> string list" where
  "decision_warnings x rq gw (Forward p body c) =
     (case fst (upstream_result x rq gw body) of
        Inr up \<Rightarrow> gw_warnings gw
      | Inl e \<Rightarrow> gw_warnings gw @ [''upstream request failed: '' @ proxy_error_display e])"
| "decision_warnings x rq gw _ = gw_warnings gw"

text \<open>The abstract handler: the decision, carried out.\<close>

definition carry_out ::
  "('k, 'l, 't, 'b, 'r) ext \<Rightarrow> 'r request \<Rightarrow> decision \<Rightarrow> ('k, 'l) gateway \<Rightarrow> response \<times> ('k, 'l) gateway" where
  "carry_out x rq d gw =
     (decision_response x rq gw d,
      \<lparr>gw_inner = (gw_inner gw)\<lparr>in_rate_limiters := decision_limiters x (gw_inner gw) d\<rparr>,
       gw_audit =
         (case decision_record x rq gw d of
            None \<Rightarrow> gw_audit gw
          | Some r \<Rightarrow> emit (x_to_string x) (x_io x) (in_audit (gw_inner gw)) r (gw_audit gw)),
       gw_metrics = decision_metric x rq gw d (gw_metrics gw),
       gw_sent = decision_sent x rq gw d,
       gw_warnings = decision_warnings x rq gw d\<rparr>)"

section \<open>Refinement\<close>

lemma check_limit_eq:
  "check_limit x (cl_scope c) (pr_name p) gw =
     (within_budget x (gw_inner gw) p c,
      gw\<lparr>gw_inner := (gw_inner gw)\<lparr>in_rate_limiters := charged x (gw_inner gw) p c\<rparr>\<rparr>)"
  by (simp add: check_limit_def within_budget_def charged_def case_prod_beta)

lemma authn_stage_eq:
  "authn_stage x rq gw =
     (case verdict x rq (gw_inner gw) of
        Inr p \<Rightarrow> (Ok p, gw)
      | Inl e \<Rightarrow>
          (Err (error_response (x_json_print x) 401 ''unauthorized'' True),
           count_metric inc_auth_failure (emit_record x (auth_failed_record (x_now x) (rq_peer_ip rq) e) gw)))"
  by (simp add: authn_stage_def verdict_def Let_def)

lemma admit_stage_eq:
  "admit_stage x rq p gw =
     (case x_to_bytes x (rq_body rq) (in_body_limit (gw_inner gw)) of
        Inl _ \<Rightarrow> (Err (error_response (x_json_print x) 413 ''request body too large'' False), gw)
      | Inr body \<Rightarrow>
          (case classified x rq (gw_inner gw) body of
             Inl reason \<Rightarrow>
               (Err (error_response (x_json_print x) 400 reason False),
                count_metric inc_parse_error
                  (audit_pre_upstream x p (rq_peer_ip rq) None (Rejected reason) gw))
           | Inr c \<Rightarrow>
               (case authorize p c (in_policy (gw_inner gw)) of
                  Inl d \<Rightarrow>
                    (Err (error_response (x_json_print x) 403 (denied_display d) False),
                     count_metric inc_authz_denied
                       (audit_pre_upstream x p (rq_peer_ip rq) (Some c) (Denied (denied_display d)) gw))
                | Inr _ \<Rightarrow>
                    let gw' = gw\<lparr>gw_inner := (gw_inner gw)\<lparr>in_rate_limiters := charged x (gw_inner gw) p c\<rparr>\<rparr> in
                    if within_budget x (gw_inner gw) p c then (Ok (body, c), gw')
                    else
                      (Err (error_response (x_json_print x) 429 ''rate limit exceeded'' False),
                       count_metric inc_rate_limited
                         (audit_pre_upstream x p (rq_peer_ip rq) (Some c) RateLimited gw')))))"
  unfolding admit_stage_def classified_def Let_def check_limit_eq case_prod_beta
  by (simp split: sum.split)

lemmas effect_defs = emit_record_def count_metric_def audit_pre_upstream_def Let_def

lemma handle_Forward:
  assumes "decide x rq (gw_inner gw) = Forward p body c"
  shows "handle x rq gw =
    finish_stage x rq p c (extract_variables (x_value_from_slice x) body)
      (fst (upstream_result x rq gw body))
      (gw\<lparr>gw_inner := (gw_inner gw)\<lparr>in_rate_limiters := charged x (gw_inner gw) p c\<rparr>,
         gw_sent := snd (upstream_result x rq gw body)\<rparr>)"
proof -
  from assms obtain r where "verdict x rq (gw_inner gw) = Ok p"
    "x_to_bytes x (rq_body rq) (in_body_limit (gw_inner gw)) = Ok body"
    "classified x rq (gw_inner gw) body = Ok c" "authorize p c (in_policy (gw_inner gw)) = Ok r"
    "within_budget x (gw_inner gw) p c"
    by (auto simp: decide_Forward_iff)
  then show ?thesis
    unfolding handle_def authn_stage_eq admit_stage_eq
    by (simp add: forward_stage_def upstream_result_def case_prod_beta)
qed

lemma finish_stage_Ok:
  "finish_stage x rq p c vars (Ok up) gw =
     (relay_response (x_json_print x) (x_builder_ok x) up,
      (if cl_scope c = ScopeWrite \<or> in_audit_reads (gw_inner gw)
       then emit_record x
         (allowed_record (x_now x) p (rq_peer_ip rq) c
           (map_option (hash_variables (x_to_vec x) (x_sha256_hex x)) vars)
           (if in_log_variables (gw_inner gw) then vars else None) (Some (prs_status up)) (elapsed x))
       else id)
      (count_metric (record_request (scope_str (cl_scope c)) (pr_name p) (prs_status up)
         (of_nat (unat (elapsed x)) / 1000)) gw))"
  by (simp add: finish_stage_def elapsed_def Let_def)

lemma finish_stage_Err:
  "finish_stage x rq p c vars (Err e) gw =
     (error_response (x_json_print x) (proxy_error_status e) ''upstream unavailable'' False,
      (\<lambda>g. g\<lparr>gw_warnings := gw_warnings g @ [''upstream request failed: '' @ proxy_error_display e]\<rparr>)
      (emit_record x
         (allowed_record (x_now x) p (rq_peer_ip rq) c
           (map_option (hash_variables (x_to_vec x) (x_sha256_hex x)) vars) None None (elapsed x))
      (count_metric (record_request (scope_str (cl_scope c)) (pr_name p) (proxy_error_status e)
         (of_nat (unat (elapsed x)) / 1000)) gw)))"
  by (simp add: finish_stage_def elapsed_def Let_def)

lemma handle_by_decision:
  assumes d_def: "d = decide x rq (gw_inner gw)"
  shows "fst (handle x rq gw) = decision_response x rq gw d \<and>
    gw_sent (snd (handle x rq gw)) = decision_sent x rq gw d \<and>
    gw_metrics (snd (handle x rq gw)) = decision_metric x rq gw d (gw_metrics gw) \<and>
    gw_inner (snd (handle x rq gw)) =
      (gw_inner gw)\<lparr>in_rate_limiters := decision_limiters x (gw_inner gw) d\<rparr> \<and>
    gw_audit (snd (handle x rq gw)) =
      (case decision_record x rq gw d of
         None \<Rightarrow> gw_audit gw
       | Some r \<Rightarrow> emit (x_to_string x) (x_io x) (in_audit (gw_inner gw)) r (gw_audit gw)) \<and>
    gw_warnings (snd (handle x rq gw)) = decision_warnings x rq gw d"
proof (cases d)
  case (Forward p body c)
  with d_def have h: "decide x rq (gw_inner gw) = Forward p body c" by simp
  show ?thesis
  proof (cases "fst (upstream_result x rq gw body)")
    case (Inl e)
    show ?thesis
      unfolding Forward handle_Forward [OF h] Inl finish_stage_Err
      by (simp add: Inl emit_record_def count_metric_def result_status_def Let_def)
  next
    case (Inr up)
    show ?thesis
      unfolding Forward handle_Forward [OF h] Inr finish_stage_Ok
      by (simp add: Inr emit_record_def count_metric_def result_status_def Let_def)
  qed
next
  case (OverBudget p c)
  then obtain body where *: "verdict x rq (gw_inner gw) = Ok p"
    "x_to_bytes x (rq_body rq) (in_body_limit (gw_inner gw)) = Ok body"
    "classified x rq (gw_inner gw) body = Ok c" "\<exists>r. authorize p c (in_policy (gw_inner gw)) = Ok r"
    "\<not> within_budget x (gw_inner gw) p c"
    by (auto simp: d_def decide_OverBudget_iff)
  then show ?thesis
    unfolding OverBudget handle_def authn_stage_eq admit_stage_eq
    by (auto simp: effect_defs)
next
  case (Unauthenticated e)
  then have "verdict x rq (gw_inner gw) = Err e" by (simp add: d_def decide_Unauthenticated_iff)
  then show ?thesis
    unfolding Unauthenticated handle_def authn_stage_eq by (simp add: effect_defs)
next
  case TooLarge
  then obtain p e where "verdict x rq (gw_inner gw) = Ok p"
    "x_to_bytes x (rq_body rq) (in_body_limit (gw_inner gw)) = Err e"
    by (auto simp: d_def decide_TooLarge_iff)
  then show ?thesis
    unfolding TooLarge handle_def authn_stage_eq admit_stage_eq by simp
next
  case (Unclassifiable p reason)
  then obtain body where "verdict x rq (gw_inner gw) = Ok p"
    "x_to_bytes x (rq_body rq) (in_body_limit (gw_inner gw)) = Ok body"
    "classified x rq (gw_inner gw) body = Err reason"
    by (auto simp: d_def decide_Unclassifiable_iff)
  then show ?thesis
    unfolding Unclassifiable handle_def authn_stage_eq admit_stage_eq by (simp add: effect_defs)
next
  case (Forbidden p c den)
  then obtain body where "verdict x rq (gw_inner gw) = Ok p"
    "x_to_bytes x (rq_body rq) (in_body_limit (gw_inner gw)) = Ok body"
    "classified x rq (gw_inner gw) body = Ok c" "authorize p c (in_policy (gw_inner gw)) = Err den"
    by (auto simp: d_def decide_Forbidden_iff)
  then show ?thesis
    unfolding Forbidden handle_def authn_stage_eq admit_stage_eq by (simp add: effect_defs)
qed

lemma handle_response: "fst (handle x rq gw) = decision_response x rq gw (decide x rq (gw_inner gw))"
  using handle_by_decision [OF refl, of x rq gw] by blast

lemma handle_sent: "gw_sent (snd (handle x rq gw)) = decision_sent x rq gw (decide x rq (gw_inner gw))"
  using handle_by_decision [OF refl, of x rq gw] by blast

lemma handle_metrics:
  "gw_metrics (snd (handle x rq gw)) = decision_metric x rq gw (decide x rq (gw_inner gw)) (gw_metrics gw)"
  using handle_by_decision [OF refl, of x rq gw] by blast

lemma handle_inner:
  "gw_inner (snd (handle x rq gw)) =
     (gw_inner gw)\<lparr>in_rate_limiters := decision_limiters x (gw_inner gw) (decide x rq (gw_inner gw))\<rparr>"
  using handle_by_decision [OF refl, of x rq gw] by blast

lemma handle_audit:
  "gw_audit (snd (handle x rq gw)) =
     (case decision_record x rq gw (decide x rq (gw_inner gw)) of
        None \<Rightarrow> gw_audit gw
      | Some r \<Rightarrow> emit (x_to_string x) (x_io x) (in_audit (gw_inner gw)) r (gw_audit gw))"
  using handle_by_decision [OF refl, of x rq gw] by blast

lemma decision_sent_cases:
  "decision_sent x rq gw d = gw_sent gw \<or>
     (\<exists>p body c base. d = Forward p body c \<and>
        base_for (in_proxy (gw_inner gw)) (fst (route (request_target rq))) = Ok base \<and>
        decision_sent x rq gw d = gw_sent gw @
          [\<lparr>ur_method = rq_method rq, ur_url = base @ snd (route (request_target rq)),
            ur_headers = filter_forward_headers (rq_headers rq), ur_body = body\<rparr>])"
  by (cases d) (auto simp: upstream_result_def forward_sent split: sum.split)

lemma handle_forwarded:
  assumes "gw_sent (snd (handle x rq gw)) \<noteq> gw_sent gw"
  obtains p body c base r where "decide x rq (gw_inner gw) = Forward p body c"
    and "verdict x rq (gw_inner gw) = Ok p"
    and "x_to_bytes x (rq_body rq) (in_body_limit (gw_inner gw)) = Ok body"
    and "classified x rq (gw_inner gw) body = Ok c"
    and "authorize p c (in_policy (gw_inner gw)) = Ok r"
    and "base_for (in_proxy (gw_inner gw)) (fst (route (request_target rq))) = Ok base"
    and "gw_sent (snd (handle x rq gw)) = gw_sent gw @
      [\<lparr>ur_method = rq_method rq, ur_url = base @ snd (route (request_target rq)),
        ur_headers = filter_forward_headers (rq_headers rq), ur_body = body\<rparr>]"
  using assms decision_sent_cases [of x rq gw "decide x rq (gw_inner gw)"] that
  unfolding handle_sent by (auto simp: decide_Forward_iff)

text \<open>When the scope or an operation of a classification really comes from the GraphQL body.\<close>

lemma classified_graphql:
  assumes "classified x rq st body = Ok c" and "rq_method rq \<noteq> ''GET''"
    and "fst (route (request_target rq)) \<noteq> GraphNodeAdmin" and "in_fail_closed_on_parse_error st"
  shows "classify (x_from_slice x) (x_parse_query x) body = Ok c"
  using assms by (auto simp: classified_def classify_request_def split: sum.splits)

lemma classify_mutation_write:
  assumes "classify from_slice pq body = Ok c" and "executable_op from_slice pq body frags nop"
    and "od_ty (snd nop) = OtMutation"
  shows "cl_scope c = ScopeWrite"
proof -
  have "operation_info_of frags nop \<in> set (cl_operations c)"
    using classify_operations_set [OF assms(1)] assms(2) by blast
  moreover have "oi_kind (operation_info_of frags nop) = Mutation"
    by (simp add: operation_info_of_kind assms(3))
  ultimately show ?thesis
    by (auto simp: classify_scope [OF assms(1)] max_scope_or_read_write)
qed

lemma classify_override_match:
  assumes "classify from_slice pq body = Ok c" and "executable_op from_slice pq body frags nop"
    and "ov_field ov \<noteq> None \<or> ov_operation ov \<noteq> None"
    and "\<And>f. ov_field ov = Some f \<Longrightarrow> root_field frags (od_selection_set (snd nop)) f"
    and "\<And>n. ov_operation ov = Some n \<Longrightarrow> fst nop = Some n"
  obtains oi where "oi \<in> set (cl_operations c)" and "override_matches ov oi"
proof
  show "operation_info_of frags nop \<in> set (cl_operations c)"
    using classify_operations_set [OF assms(1)] assms(2) by blast
  show "override_matches ov (operation_info_of frags nop)"
    using describes_operation_info_of [of frags nop] assms(3-5)
    by (auto simp: override_matches_iff describes_def)
qed

lemma authorize_read_only: "(\<exists>r. authorize p read_only pol = Ok r) \<longleftrightarrow> satisfies p ''read''"
  by (simp add: authorize_Ok_iff required_set_def read_only_def)

lemma backend_verdict_None:
  "backend_verdict ct_eq decode auth creds = None \<Longrightarrow>
     authenticate ct_eq decode auth creds allow = (if allow then Ok anonymous else Err MissingCredentials)"
  by (cases auth)
    (simp_all add: authenticate_def backend_verdict_def bearer_of_def anonymous_fallback_missing)

lemma decision_record_None_iff:
  "decision_record x rq gw d = None \<longleftrightarrow>
     d = TooLarge \<or>
     (\<exists>p body c up. d = Forward p body c \<and> cl_scope c = ScopeRead \<and> \<not> in_audit_reads (gw_inner gw) \<and>
        fst (upstream_result x rq gw body) = Ok up)"
proof (cases d)
  case (Forward p body c)
  then show ?thesis
    by (cases "fst (upstream_result x rq gw body)"; cases "cl_scope c") (simp_all add: Let_def)
qed simp_all

lemma decision_record_who:
  assumes "decision_record x rq gw (decide x rq (gw_inner gw)) = Some r"
  shows "ar_source_ip r = Some (rq_peer_ip rq) \<and>
    ar_principal r = (case verdict x rq (gw_inner gw) of Inl e \<Rightarrow> ''-'' | Inr p \<Rightarrow> pr_name p) \<and>
    (ar_outcome r = Allowed \<longleftrightarrow> (\<exists>p body c. decide x rq (gw_inner gw) = Forward p body c))"
proof -
  obtain d where d: "decide x rq (gw_inner gw) = d" by simp
  with assms have r: "decision_record x rq gw d = Some r" by simp
  from d have v: "verdict x rq (gw_inner gw) =
      (case d of Unauthenticated e \<Rightarrow> Err e | TooLarge \<Rightarrow> verdict x rq (gw_inner gw) | Unclassifiable p _ \<Rightarrow> Ok p
       | Forbidden p _ _ \<Rightarrow> Ok p | OverBudget p _ \<Rightarrow> Ok p | Forward p _ _ \<Rightarrow> Ok p)"
    by (cases d) (simp_all add: decide_iffs)
  show ?thesis
  proof (cases d)
    case (Forward p body c)
    with r v d show ?thesis
      by (cases "fst (upstream_result x rq gw body)") (auto simp: allowed_record_def Let_def split: if_splits)
  qed (use r v d in \<open>auto simp: auth_failed_record_def pre_upstream_record_def\<close>)
qed

lemma decision_record_variables:
  assumes "decision_record x rq gw d = Some r" and "\<not> in_log_variables (gw_inner gw)"
  shows "ar_variables r = None"
proof (cases d)
  case (Forward p body c)
  with assms show ?thesis
    by (cases "fst (upstream_result x rq gw body)") (auto simp: allowed_record_def Let_def split: if_splits)
qed (use assms(1) in \<open>auto simp: auth_failed_record_def pre_upstream_record_def\<close>)

section \<open>A concrete gateway\<close>

text \<open>
  A gateway with one operator token, anonymous reads on, an override on \<^verbatim>\<open>queueActions\<close>, a write
  budget of two and the parsers of the classification examples.
\<close>

lemma ex_could_run_W:
  "gr_operation_name req \<noteq> Some ''R'' \<Longrightarrow> could_run req ex_doc (ed_operations ex_doc ! 1)"
  by (cases "gr_operation_name req") (auto simp: could_run_def ex_doc_def)

lemma ex_executable_W:
  assumes "from_slice body = Ok raw" and "req \<in> set (requests_of raw)"
    and "gr_query req = ''rw''" and "gr_operation_name req \<noteq> Some ''R''"
  shows "executable_op from_slice ex_parse_query body (ed_fragments ex_doc) (ed_operations ex_doc ! 1)"
proof -
  have "ex_parse_query (gr_query req) = Ok ex_doc" by (simp add: ex_parse_query_def assms(3))
  with assms(1,2) ex_could_run_W [OF assms(4)] show ?thesis unfolding executable_op_def by blast
qed

lemma ex_doc_W: "od_ty (snd (ed_operations ex_doc ! 1)) = OtMutation"
  by (simp add: ex_doc_def)

definition ex_ext :: "(unit, string \<Rightarrow> gcra_cell, rat, bytes, bytes) ext" where
  "ex_ext =
     \<lparr>x_to_str = Some, x_ct_eq = (=), x_decode = (\<lambda>_ _ _. Err ''InvalidToken''),
      x_to_bytes = (\<lambda>b limit. if length b \<le> unat limit then Ok b else Err ''length limit exceeded''),
      x_from_slice = ex_from_slice, x_parse_query = ex_parse_query, x_value_from_slice = (\<lambda>_. None),
      x_check_key = gcra_check, x_clock = 0, x_send = ex_send, x_read_bytes = Ok,
      x_to_vec = (\<lambda>_. Some []), x_sha256_hex = (\<lambda>_. ''e3b0''), x_to_string = (\<lambda>_. Some ''{}''),
      x_json_print = (\<lambda>_. ''{}''), x_now = ''2025-01-01T00:00:00Z'', x_elapsed_ms = 5,
      x_io = \<lparr>io_write_error = (\<lambda>_. None), io_lock_ok = True\<rparr>, x_builder_ok = True\<rparr>"

definition ex_inner :: "bool \<Rightarrow> (unit, string \<Rightarrow> gcra_cell) inner" where
  "ex_inner fail_closed =
     \<lparr>in_authenticator = AuthBearer \<lparr>st_tokens =
        [\<lparr>tr_name = ''op'', tr_token = ''t2'', tr_scopes = [''write'', ''actions:execute'']\<rparr>]\<rparr>,
      in_policy = ex_policy, in_proxy = proxy_new ex_upstream, in_audit = Stdout,
      in_rate_limiters = rate_limiters_new ex_quota ex_keyed 0 2,
      in_allow_anonymous_read = True, in_fail_closed_on_parse_error = fail_closed,
      in_audit_reads = False, in_log_variables = False, in_body_limit = 1024 * 1024\<rparr>"

definition ex_gateway :: "bool \<Rightarrow> (unit, string \<Rightarrow> gcra_cell) gateway" where
  "ex_gateway fail_closed =
     \<lparr>gw_inner = ex_inner fail_closed, gw_audit = \<lparr>al_lines = [], al_errors = []\<rparr>,
      gw_metrics = metrics_start, gw_sent = [], gw_warnings = []\<rparr>"

definition ex_request :: "headers \<Rightarrow> string \<Rightarrow> string \<Rightarrow> bytes \<Rightarrow> bytes request" where
  "ex_request hs method path body =
     \<lparr>rq_method = method, rq_path_and_query = Some path, rq_path = path, rq_headers = hs,
      rq_peer_ip = ''10.0.0.1'', rq_client_cert = None, rq_body = body\<rparr>"

definition ex_auth :: headers where
  "ex_auth = [(''authorization'', ''Bearer t2''), (''accept'', ''*'')]"

definition ex_op :: principal where
  "ex_op = principal_new ''op'' [''write'', ''actions:execute'']"

lemma ex_verdict_op: "verdict ex_ext (ex_request ex_auth m path body) (ex_inner fc) = Ok ex_op"
proof -
  have t: "extract_bearer Some ex_auth = Some ''t2''"
    by (simp add: extract_bearer_def header_get_def ex_auth_def trim_def trim_start_def trim_end_def ws_chars_def)
  show ?thesis
    unfolding verdict_def ex_ext_def ex_inner_def ex_request_def authenticate_def bearer_of_def
      static_token_verify_def
    by (simp add: t ex_op_def anonymous_fallback_def)
qed

lemma ex_verdict_anonymous: "verdict ex_ext (ex_request [] m path body) (ex_inner fc) = Ok anonymous"
  unfolding verdict_def ex_ext_def ex_inner_def ex_request_def authenticate_def bearer_of_def
  by (simp add: extract_bearer_def header_get_def anonymous_fallback_def)

lemma ex_route: "route ''/'' = (AgentManagement, ''/'')" "route ''/_admin/x'' = (GraphNodeAdmin, ''/x'')"
  by (simp_all add: route_def strip_prefix_segment_def ADMIN_PREFIX_def STATUS_PREFIX_def starts_with_def)

lemma ex_to_bytes: "length body < 1000 \<Longrightarrow>
   x_to_bytes ex_ext (rq_body (ex_request hs m path body)) (in_body_limit (ex_inner fc)) = Ok body"
  by (simp add: ex_ext_def ex_request_def ex_inner_def)

lemma ex_authorize_op:
  "authorize ex_op ex_classification ex_policy = Ok [''actions:execute'', ''write'']"
  by (simp add: ex_op_def ex_authz_defs)

lemma ex_within: "within_budget ex_ext (ex_inner fc) p c"
  by (cases "cl_scope c")
    (simp_all add: within_budget_def ex_ext_def ex_inner_def check_def rate_limiters_new_def build_def
      ex_quota_def ex_keyed_def gcra_check_def gcra_step_def gcra_level_def)

lemma ex_executable_forged:
  "executable_op (x_from_slice ex_ext) (x_parse_query ex_ext) ''forged'' (ed_fragments ex_doc)
     (ed_operations ex_doc ! 1)"
proof -
  have x: "x_parse_query ex_ext = ex_parse_query" by (simp add: ex_ext_def)
  show ?thesis
    unfolding x
    by (rule ex_executable_W
        [where raw = "Single \<lparr>gr_query = ''rw'', gr_operation_name = Some ''X''\<rparr>"
           and req = "\<lparr>gr_query = ''rw'', gr_operation_name = Some ''X''\<rparr>"])
      (simp_all add: ex_ext_def ex_from_slice_def)
qed

lemma ex_decide_write:
  "decide ex_ext (ex_request ex_auth ''POST'' ''/'' ''forged'') (ex_inner True) =
     Forward ex_op ''forged'' ex_classification"
  unfolding decide_Forward_iff
proof (intro conjI exI)
  show "classified ex_ext (ex_request ex_auth ''POST'' ''/'' ''forged'') (ex_inner True) ''forged'' =
      Ok ex_classification"
    using ex_classify_forged
    by (simp add: classified_def classify_request_def ex_request_def request_target_def ex_route
      ex_ext_def ex_classification_def)
  show "authorize ex_op ex_classification (in_policy (ex_inner True)) = Ok [''actions:execute'', ''write'']"
    using ex_authorize_op by (simp add: ex_inner_def)
qed (simp_all add: ex_verdict_op ex_to_bytes ex_within)

lemma ex_sent_write:
  "gw_sent (snd (handle ex_ext (ex_request ex_auth ''POST'' ''/'' ''forged'') (ex_gateway True))) =
     [\<lparr>ur_method = ''POST'', ur_url = ''http://m:1/'', ur_headers = [(''accept'', ''*'')], ur_body = ''forged''\<rparr>]"
proof -
  have g: "gw_inner (ex_gateway True) = ex_inner True" "gw_sent (ex_gateway True) = []"
    by (simp_all add: ex_gateway_def)
  have b: "px_agent_management (in_proxy (ex_inner True)) = ''http://m:1''"
    by (simp add: ex_inner_def proxy_new_def ex_upstream_def trim_trailing_slash_def strip_suffix_char_def)
  show ?thesis
    unfolding handle_sent g ex_decide_write
    by (simp add: upstream_result_def forward_sent g ex_request_def request_target_def ex_route b ex_auth_def
      filter_forward_headers_def is_hop_by_hop_def)
qed

section \<open>Main theorem\<close>

text \<open>
  C24. The handler implements its specification: its response and the whole of its effect on the
  gateway, that is the limiters, the audit log, the metrics, the requests sent and the warnings, are
  those of the decision that authentication, the body limit, classification, authorization and the
  rate limit lead to, and nothing else changes.
\<close>

theorem handle_refines_decision:
  "handle x rq gw = carry_out x rq (decide x rq (gw_inner gw)) gw"
  using handle_by_decision [OF refl, of x rq gw]
  by (intro prod_eqI gateway.equality) (simp_all add: carry_out_def)

end
