(* ===== verification/Iga_Effects.thy ===== *)
theory Iga_Effects
  imports Iga_Pipeline
begin

text \<open>
  The contract of everything that changes the gateway: the configuration stays, and the upstream
  log, the audit lines and the traced errors and warnings only grow. The locale
  \<open>gateway_effect\<close> states it and derives it for repetition; \<open>effect_pair\<close> composes two effects.
  The interpretations cover the helpers, the stages and the handler.
\<close>

section \<open>Configuration\<close>

lemma limiters_irrelevant [simp]:
  "verdict x rq (st\<lparr>in_rate_limiters := l\<rparr>) = verdict x rq st"
  "classified x rq (st\<lparr>in_rate_limiters := l\<rparr>) = classified x rq st"
  by (simp_all add: verdict_def classified_def fun_eq_iff)

text \<open>The configuration is what all fields but the limiters say; no advance changes it.\<close>

definition same_config :: "('k, 'l) inner \<Rightarrow> ('k, 'l) inner \<Rightarrow> bool" where
  "same_config st st' \<longleftrightarrow> st' = st\<lparr>in_rate_limiters := in_rate_limiters st'\<rparr>"

lemma same_config_refl [simp]: "same_config st st"
  by (simp add: same_config_def)

lemma same_config_update: "same_config st st' \<Longrightarrow> same_config st (st'\<lparr>in_rate_limiters := l\<rparr>)"
  by (cases st; cases st') (simp add: same_config_def)

lemma same_config_eq:
  assumes "same_config st st'"
  shows "verdict x rq st' = verdict x rq st" "classified x rq st' = classified x rq st"
    "in_body_limit st' = in_body_limit st" "in_policy st' = in_policy st" "in_proxy st' = in_proxy st"
  using assms unfolding same_config_def
  by (metis limiters_irrelevant(1), metis limiters_irrelevant(2), (metis inner.select_convs inner.surjective inner.update_convs)+)

text \<open>The effects of a stage on the parts of the gateway.\<close>

lemma inner_effects [simp]:
  "gw_inner (emit_record x r gw) = gw_inner gw" "gw_sent (emit_record x r gw) = gw_sent gw"
  "gw_metrics (emit_record x r gw) = gw_metrics gw"
  "gw_inner (count_metric f gw) = gw_inner gw" "gw_sent (count_metric f gw) = gw_sent gw"
  "gw_metrics (count_metric f gw) = f (gw_metrics gw)"
  "gw_inner (audit_pre_upstream x p ip c oc gw) = gw_inner gw"
  "gw_sent (audit_pre_upstream x p ip c oc gw) = gw_sent gw"
  "gw_metrics (audit_pre_upstream x p ip c oc gw) = gw_metrics gw"
  by (simp_all add: emit_record_def count_metric_def audit_pre_upstream_def)

lemma finish_stage_effects [simp]:
  "gw_inner (snd (finish_stage x rq p c vars res gw)) = gw_inner gw"
  "gw_sent (snd (finish_stage x rq p c vars res gw)) = gw_sent gw"
  "gw_metrics (snd (finish_stage x rq p c vars res gw)) =
     record_request (scope_str (cl_scope c)) (pr_name p) (result_status res)
       (of_nat (unat (elapsed x)) / 1000) (gw_metrics gw)"
  by (cases res; simp add: finish_stage_Ok finish_stage_Err result_status_def)+

section \<open>The contract\<close>

definition grows :: "('k, 'l) gateway \<Rightarrow> ('k, 'l) gateway \<Rightarrow> bool" where
  "grows gw gw' \<longleftrightarrow>
     same_config (gw_inner gw) (gw_inner gw') \<and> prefix (gw_sent gw) (gw_sent gw') \<and>
     prefix (al_lines (gw_audit gw)) (al_lines (gw_audit gw')) \<and>
     prefix (al_errors (gw_audit gw)) (al_errors (gw_audit gw')) \<and>
     prefix (gw_warnings gw) (gw_warnings gw')"

lemma same_config_trans: "same_config a b \<Longrightarrow> same_config b c \<Longrightarrow> same_config a c"
  unfolding same_config_def by (cases a; cases b; cases c) simp

lemma grows_refl [simp]: "grows gw gw"
  by (simp add: grows_def)

lemma grows_trans: "grows a b \<Longrightarrow> grows b c \<Longrightarrow> grows a c"
  unfolding grows_def by (blast intro: same_config_trans prefix_order.order_trans)

locale gateway_effect =
  fixes effect :: "('k, 'l) gateway \<Rightarrow> ('k, 'l) gateway"
  assumes effect_grows: "grows gw (effect gw)"
begin

lemma iterate_grows: "grows gw ((effect ^^ n) gw)"
  by (induction n) (auto intro: grows_trans effect_grows)

lemma keeps_verdict: "verdict x rq (gw_inner (effect gw)) = verdict x rq (gw_inner gw)"
  using effect_grows [of gw] by (simp add: grows_def same_config_eq)

end

locale effect_pair = first: gateway_effect effect1 + second: gateway_effect effect2
  for effect1 effect2 :: "('k, 'l) gateway \<Rightarrow> ('k, 'l) gateway"

sublocale effect_pair \<subseteq> both: gateway_effect "\<lambda>gw. effect2 (effect1 gw)"
  by unfold_locales (blast intro: grows_trans first.effect_grows second.effect_grows)

section \<open>The model satisfies it\<close>

lemma emit_grows:
  "prefix (al_lines l) (al_lines (emit to_string io sink r l))"
  "prefix (al_errors l) (al_errors (emit to_string io sink r l))"
  by (cases sink; simp add: emit_def write_line_def Let_def split: option.split)+

interpretation recorded: gateway_effect "emit_record x r" for x r
  by unfold_locales (simp add: grows_def emit_record_def emit_grows)

interpretation tallied: gateway_effect "count_metric f" for f
  by unfold_locales (simp add: grows_def count_metric_def)

interpretation refusal: effect_pair "emit_record x r" "count_metric f" for x r f
  by unfold_locales

interpretation completed: gateway_effect "\<lambda>gw. snd (finish_stage x rq p c vars res gw)" for x rq p c vars res
proof unfold_locales
  fix gw
  show "grows gw (snd (finish_stage x rq p c vars res gw))"
  proof (cases res)
    case (Inl e)
    have "grows g (g\<lparr>gw_warnings := gw_warnings g @ ws\<rparr>)" for g :: "('a, 'b) gateway" and ws
      by (simp add: grows_def)
    then show ?thesis
      unfolding Inl finish_stage_Err snd_conv
      by (rule grows_trans [OF grows_trans [OF tallied.effect_grows recorded.effect_grows]])
  next
    case (Inr up)
    show ?thesis
      unfolding Inr finish_stage_Ok snd_conv
      by (auto intro: grows_trans [OF tallied.effect_grows recorded.effect_grows] tallied.effect_grows)
  qed
qed

interpretation authenticating: gateway_effect "\<lambda>gw. snd (authn_stage x rq gw)" for x rq
  by unfold_locales (auto simp: authn_stage_eq intro: refusal.both.effect_grows split: sum.split)

lemma charge_grows: "grows gw (gw\<lparr>gw_inner := (gw_inner gw)\<lparr>in_rate_limiters := l\<rparr>\<rparr>)"
  by (simp add: grows_def same_config_update)

interpretation admitting: gateway_effect "\<lambda>gw. snd (admit_stage x rq p gw)" for x rq p
  by unfold_locales
    (auto simp: admit_stage_eq audit_pre_upstream_def Let_def split: sum.split
      intro: refusal.both.effect_grows charge_grows grows_trans [OF charge_grows refusal.both.effect_grows])

lemma sent_grows:
  "grows gw (gw\<lparr>gw_sent := snd (forward send rb px (gw_sent gw) m pq hs body)\<rparr>)"
  by (simp add: grows_def forward_sent split: sum.split)

interpretation forwarding: gateway_effect "\<lambda>gw. snd (forward_stage x rq p body c gw)" for x rq p body c
  by unfold_locales
    (simp add: forward_stage_def Let_def case_prod_beta grows_trans [OF sent_grows completed.effect_grows])

interpretation handling: gateway_effect "\<lambda>gw. snd (handle x rq gw)" for x rq
proof unfold_locales
  fix gw
  obtain r1 g1 where 1: "authn_stage x rq gw = (r1, g1)" by fastforce
  have g1: "grows gw g1" using authenticating.effect_grows [of gw x rq] 1 by simp
  show "grows gw (snd (handle x rq gw))"
  proof (cases r1)
    case (Inl resp)
    with 1 g1 show ?thesis by (simp add: handle_def)
  next
    case (Inr p)
    obtain r2 g2 where 2: "admit_stage x rq p g1 = (r2, g2)" by fastforce
    have "grows gw g2" using grows_trans [OF g1 admitting.effect_grows [of g1 x rq p]] 2 by simp
    with 1 2 Inr show ?thesis
      by (cases r2) (auto simp: handle_def intro: grows_trans [OF _ forwarding.effect_grows])
  qed
qed

end
