(* ===== verification/Iga_Runs.thy ===== *)
theory Iga_Runs
  imports Iga_Effects
begin

text \<open>
  Many requests at once. The runtime polls the handlers of concurrent requests in any order, and a
  handler gives up control where it awaits: the body of the client and the answer of the upstream. A
  request is therefore a \<open>task\<close> that advances from one of these points to the next over the shared
  gateway, and a run is any interleaving of arrivals and advances. One advance is one step: each of
  the shared objects it touches (a limiter, the audit device, a metric) is updated by one atomic
  operation of its own in the code.
\<close>

section \<open>Tasks\<close>

datatype ('k, 'l, 't, 'b, 'r) task =
    Received "('k, 'l, 't, 'b, 'r) ext" "'r request"
  | Authenticated "('k, 'l, 't, 'b, 'r) ext" "'r request" principal
  | Waiting "('k, 'l, 't, 'b, 'r) ext" "'r request" principal bytes classification "json option"
      "(proxy_response, proxy_error) result"
  | Responded "('k, 'l, 't, 'b, 'r) ext" "'r request" response

fun advance ::
  "('k, 'l, 't, 'b, 'r) task \<Rightarrow> ('k, 'l) gateway \<Rightarrow> ('k, 'l, 't, 'b, 'r) task \<times> ('k, 'l) gateway" where
  "advance (Received x rq) gw =
     (case authn_stage x rq gw of
        (Inl resp, gw1) \<Rightarrow> (Responded x rq resp, gw1)
      | (Inr p, gw1) \<Rightarrow> (Authenticated x rq p, gw1))"
| "advance (Authenticated x rq p) gw =
     (case admit_stage x rq p gw of
        (Inl resp, gw1) \<Rightarrow> (Responded x rq resp, gw1)
      | (Inr (body, c), gw1) \<Rightarrow>
          let (result, sent) = forward (x_send x) (x_read_bytes x) (in_proxy (gw_inner gw1)) (gw_sent gw1)
                (rq_method rq) (request_target rq) (rq_headers rq) body
          in (Waiting x rq p body c (extract_variables (x_value_from_slice x) body) result,
              gw1\<lparr>gw_sent := sent\<rparr>))"
| "advance (Waiting x rq p body c variables result) gw =
     (case finish_stage x rq p c variables result gw of (resp, gw1) \<Rightarrow> (Responded x rq resp, gw1))"
| "advance (Responded x rq resp) gw = (Responded x rq resp, gw)"

text \<open>The check of a limiter that an advance makes, with the answer.\<close>

type_synonym 't check_event = "('t \<times> scope \<times> string) \<times> bool"

fun checks_of :: "('k, 'l, 't, 'b, 'r) task \<Rightarrow> ('k, 'l) gateway \<Rightarrow> 't check_event list" where
  "checks_of (Authenticated x rq p) gw =
     (case x_to_bytes x (rq_body rq) (in_body_limit (gw_inner gw)) of
        Inl _ \<Rightarrow> []
      | Inr body \<Rightarrow>
          (case classified x rq (gw_inner gw) body of
             Inl _ \<Rightarrow> []
           | Inr c \<Rightarrow>
               (case authorize p c (in_policy (gw_inner gw)) of
                  Inl _ \<Rightarrow> []
                | Inr _ \<Rightarrow> [((x_clock x, cl_scope c, pr_name p), within_budget x (gw_inner gw) p c)])))"
| "checks_of _ gw = []"

text \<open>The states of all runs that start with an idle gateway, with the checks made so far.\<close>

inductive reach ::
  "('t \<Rightarrow> 'l \<Rightarrow> string \<Rightarrow> bool \<times> 'l) \<Rightarrow> ('k, 'l) gateway \<Rightarrow> ('k, 'l) gateway \<Rightarrow>
   ('k, 'l, 't, 'b, 'r) task list \<Rightarrow> 't check_event list \<Rightarrow> bool"
  for ck :: "'t \<Rightarrow> 'l \<Rightarrow> string \<Rightarrow> bool \<times> 'l" and gw0 :: "('k, 'l) gateway" where
  idle: "reach ck gw0 gw0 [] []"
| arrive: "reach ck gw0 gw ts tr \<Longrightarrow> x_check_key x = ck \<Longrightarrow> reach ck gw0 gw (ts @ [Received x rq]) tr"
| progress: "reach ck gw0 gw ts tr \<Longrightarrow> i < length ts \<Longrightarrow> advance (ts ! i) gw = (t', gw') \<Longrightarrow>
     reach ck gw0 gw' (ts[i := t']) (tr @ checks_of (ts ! i) gw)"

section \<open>Invariants\<close>

text \<open>A task that has not come to the point of sending.\<close>

fun pending :: "('k, 'l, 't, 'b, 'r) task \<Rightarrow> bool" where
  "pending (Received x rq) = True"
| "pending (Authenticated x rq p) = True"
| "pending _ = False"

definition admitted ::
  "('k, 'l, 't, 'b, 'r) ext \<Rightarrow> 'r request \<Rightarrow> ('k, 'l) inner \<Rightarrow> principal \<Rightarrow> bytes \<Rightarrow> classification \<Rightarrow> bool" where
  "admitted x rq st p body c \<longleftrightarrow>
     verdict x rq st = Ok p \<and> x_to_bytes x (rq_body rq) (in_body_limit st) = Ok body \<and>
     classified x rq st body = Ok c \<and> (\<exists>r. authorize p c (in_policy st) = Ok r)"

fun task_ok :: "('k, 'l) inner \<Rightarrow> ('k, 'l, 't, 'b, 'r) task \<Rightarrow> bool" where
  "task_ok st (Received x rq) = True"
| "task_ok st (Authenticated x rq p) = (verdict x rq st = Ok p)"
| "task_ok st (Waiting x rq p body c vars res) = admitted x rq st p body c"
| "task_ok st (Responded x rq resp) = True"

definition permitted :: "('k, 'l, 't, 'b, 'r) ext \<Rightarrow> 'r request \<Rightarrow> ('k, 'l) inner \<Rightarrow> upstream_request \<Rightarrow> bool" where
  "permitted x rq st req \<longleftrightarrow>
     (\<exists>p body c base. admitted x rq st p body c \<and>
        base_for (in_proxy st) (fst (route (request_target rq))) = Ok base \<and>
        req = \<lparr>ur_method = rq_method rq, ur_url = base @ snd (route (request_target rq)),
               ur_headers = filter_forward_headers (rq_headers rq), ur_body = body\<rparr>)"

fun task_rq :: "('k, 'l, 't, 'b, 'r) task \<Rightarrow> ('k, 'l, 't, 'b, 'r) ext \<times> 'r request" where
  "task_rq (Received x rq) = (x, rq)"
| "task_rq (Authenticated x rq p) = (x, rq)"
| "task_rq (Waiting x rq p body c vars res) = (x, rq)"
| "task_rq (Responded x rq resp) = (x, rq)"

lemma advance_Received_cases:
  assumes "advance (Received x rq) gw = (t', gw')"
  obtains (refused) e resp where "verdict x rq (gw_inner gw) = Err e" "t' = Responded x rq resp"
      "gw_inner gw' = gw_inner gw" "gw_sent gw' = gw_sent gw" "gw_metrics gw' = inc_auth_failure (gw_metrics gw)"
  | (authenticated) p where "verdict x rq (gw_inner gw) = Ok p" "t' = Authenticated x rq p" "gw' = gw"
proof (cases "verdict x rq (gw_inner gw)")
  case (Inl e)
  with assms show ?thesis by (intro refused [of e]) (auto simp: authn_stage_eq)
next
  case (Inr p)
  with assms show ?thesis by (intro authenticated [of p]) (auto simp: authn_stage_eq)
qed

lemma advance_Authenticated_cases:
  assumes "advance (Authenticated x rq p) gw = (t', gw')"
  obtains (too_large) e resp where "x_to_bytes x (rq_body rq) (in_body_limit (gw_inner gw)) = Err e"
      "t' = Responded x rq resp" "gw' = gw" "checks_of (Authenticated x rq p) gw = []"
  | (refused) body resp where "x_to_bytes x (rq_body rq) (in_body_limit (gw_inner gw)) = Ok body"
      "t' = Responded x rq resp" "gw_inner gw' = gw_inner gw" "gw_sent gw' = gw_sent gw"
      "gw_metrics gw' = inc_parse_error (gw_metrics gw) \<or> gw_metrics gw' = inc_authz_denied (gw_metrics gw)"
      "checks_of (Authenticated x rq p) gw = []"
  | (over_budget) body c resp where "x_to_bytes x (rq_body rq) (in_body_limit (gw_inner gw)) = Ok body"
      "t' = Responded x rq resp"
      "gw_inner gw' = (gw_inner gw)\<lparr>in_rate_limiters := charged x (gw_inner gw) p c\<rparr>"
      "gw_sent gw' = gw_sent gw" "gw_metrics gw' = inc_rate_limited (gw_metrics gw)"
      "\<not> within_budget x (gw_inner gw) p c"
      "checks_of (Authenticated x rq p) gw = [((x_clock x, cl_scope c, pr_name p), False)]"
  | (forwarded) body c r vars res where "x_to_bytes x (rq_body rq) (in_body_limit (gw_inner gw)) = Ok body"
      "classified x rq (gw_inner gw) body = Ok c" "authorize p c (in_policy (gw_inner gw)) = Ok r"
      "within_budget x (gw_inner gw) p c" "t' = Waiting x rq p body c vars res"
      "gw_inner gw' = (gw_inner gw)\<lparr>in_rate_limiters := charged x (gw_inner gw) p c\<rparr>"
      "gw_sent gw' = decision_sent x rq gw (Forward p body c)" "gw_metrics gw' = gw_metrics gw"
      "checks_of (Authenticated x rq p) gw = [((x_clock x, cl_scope c, pr_name p), True)]"
proof (cases "x_to_bytes x (rq_body rq) (in_body_limit (gw_inner gw))")
  case (Inl e)
  with assms show ?thesis by (intro too_large [of e]) (auto simp: admit_stage_eq)
next
  case body: (Inr body)
  show ?thesis
  proof (cases "classified x rq (gw_inner gw) body")
    case (Inl e)
    with assms body show ?thesis by (intro refused [of body]) (auto simp: admit_stage_eq)
  next
    case c: (Inr c)
    show ?thesis
    proof (cases "authorize p c (in_policy (gw_inner gw))")
      case (Inl d)
      with assms body c show ?thesis by (intro refused [of body]) (auto simp: admit_stage_eq)
    next
      case (Inr r)
      note known = body c Inr
      show ?thesis
      proof (cases "within_budget x (gw_inner gw) p c")
        case True
        with assms known have "t' = Waiting x rq p body c (extract_variables (x_value_from_slice x) body)
            (fst (upstream_result x rq gw body))"
          "gw' = gw\<lparr>gw_inner := (gw_inner gw)\<lparr>in_rate_limiters := charged x (gw_inner gw) p c\<rparr>,
             gw_sent := snd (upstream_result x rq gw body)\<rparr>"
          by (auto simp: admit_stage_eq upstream_result_def case_prod_beta)
        with known True show ?thesis by (intro forwarded) auto
      next
        case False
        with assms known show ?thesis by (intro over_budget [of body _ c]) (auto simp: admit_stage_eq)
      qed
    qed
  qed
qed

lemma advance_Waiting:
  "advance (Waiting x rq p body c vars res) gw = (t', gw') \<Longrightarrow>
     t' = Responded x rq (fst (finish_stage x rq p c vars res gw)) \<and>
     gw' = snd (finish_stage x rq p c vars res gw)"
  by (auto split: prod.splits)

text \<open>An advance keeps to the contract of effects.\<close>

lemma advance_grows: "grows gw (snd (advance t gw))"
proof (cases t)
  case (Received x rq)
  then show ?thesis
    using authenticating.effect_grows [of gw x rq]
    by (cases "authn_stage x rq gw") (auto split: sum.split)
next
  case (Authenticated x rq p)
  obtain r1 g1 where 1: "admit_stage x rq p gw = (r1, g1)" by fastforce
  with admitting.effect_grows [of gw x rq p] have "grows gw g1" by simp
  with 1 Authenticated show ?thesis
    by (cases r1) (auto simp: Let_def case_prod_beta intro: grows_trans [OF _ sent_grows])
next
  case (Waiting x rq p body c vars res)
  then show ?thesis using completed.effect_grows [of gw x rq p c vars res] by (simp add: case_prod_beta)
qed simp

interpretation advancing: gateway_effect "\<lambda>gw. snd (advance t gw)" for t
  by unfold_locales (rule advance_grows)

lemma advance_config:
  assumes "advance t gw = (t', gw')" and "same_config st (gw_inner gw)"
  shows "same_config st (gw_inner gw')"
  using advancing.effect_grows [of gw t] assms by (auto simp: grows_def intro: same_config_trans)

lemma advance_task:
  assumes "advance t gw = (t', gw')" and "same_config st (gw_inner gw)" and "task_ok st t"
  shows "task_ok st t' \<and> task_rq t' = task_rq t"
proof (cases t)
  case (Received x rq)
  from assms(1) [unfolded Received] show ?thesis
    using assms(2) by (cases rule: advance_Received_cases) (simp_all add: Received same_config_eq)
next
  case (Authenticated x rq p)
  from assms(1) [unfolded Authenticated] show ?thesis
    using assms(2,3)
    by (cases rule: advance_Authenticated_cases) (simp_all add: Authenticated same_config_eq admitted_def)
next
  case (Waiting x rq p body c vars res)
  with assms(1) advance_Waiting show ?thesis by fastforce
next
  case (Responded x rq resp)
  with assms show ?thesis by simp
qed

text \<open>
  An advance sends at most one request, of its own task, only after a positive check, and only once in
  the life of the task.
\<close>

lemma advance_pending: "advance t gw = (t', gw') \<Longrightarrow> pending t' \<Longrightarrow> pending t"
  by (cases t) (auto simp: case_prod_beta)

lemma advance_sent:
  assumes "advance t gw = (t', gw')" and "same_config st (gw_inner gw)" and "task_ok st t"
  shows "gw_sent gw' = gw_sent gw \<or>
    (\<exists>req. gw_sent gw' = gw_sent gw @ [req] \<and> permitted (fst (task_rq t)) (snd (task_rq t)) st req \<and>
       filter snd (checks_of t gw) \<noteq> [] \<and> pending t \<and> \<not> pending t')"
proof (cases t)
  case (Received x rq)
  from assms(1) [unfolded Received] show ?thesis by (cases rule: advance_Received_cases) simp_all
next
  case (Authenticated x rq p)
  from assms(1) [unfolded Authenticated] show ?thesis
  proof (cases rule: advance_Authenticated_cases)
    case (forwarded body c r vars res)
    with assms(2,3) Authenticated have adm: "admitted x rq st p body c"
      by (simp add: admitted_def same_config_eq)
    with forwarded(5,7,9) decision_sent_cases [of x rq gw "Forward p body c"] show ?thesis
      by (auto simp: Authenticated permitted_def same_config_eq [OF assms(2)])
  qed simp_all
next
  case (Waiting x rq p body c vars res)
  with assms(1) show ?thesis using advance_Waiting by fastforce
next
  case (Responded x rq resp)
  with assms(1) show ?thesis by simp
qed

section \<open>Invariants of all runs\<close>

lemma advance_task_rq: "advance t gw = (t', gw') \<Longrightarrow> task_rq t' = task_rq t"
  by (cases t) (auto simp: Let_def case_prod_beta split: prod.splits sum.splits)

lemma map_task_rq_update:
  assumes "i < length ts" and "advance (ts ! i) gw = (t', gw')"
  shows "map task_rq (ts[i := t']) = map task_rq ts"
  using assms(1) advance_task_rq [OF assms(2)] by (metis list_update_id map_update nth_map length_map)

lemma reach_config:
  assumes "reach ck gw0 gw ts tr"
  shows "same_config (gw_inner gw0) (gw_inner gw) \<and>
    (\<forall>t \<in> set ts. task_ok (gw_inner gw0) t \<and> x_check_key (fst (task_rq t)) = ck)"
  using assms
proof (induction rule: reach.induct)
  case idle
  then show ?case by simp
next
  case (arrive gw ts tr x rq)
  then show ?case by auto
next
  case (progress gw ts tr i t' gw')
  then have i: "ts ! i \<in> set ts" by simp
  with progress have "same_config (gw_inner gw0) (gw_inner gw')"
    "task_ok (gw_inner gw0) t' \<and> task_rq t' = task_rq (ts ! i)"
    using advance_config advance_task by blast+
  with progress.IH i show ?case by (auto dest!: set_update_subset_insert [THEN subsetD])
qed

text \<open>
  Everything sent has a sender: a task that arrived, has got past the point of sending, and was
  permitted to send just this. No two sent requests have the same sender.
\<close>

definition sender_ok :: "('k, 'l) inner \<Rightarrow> ('k, 'l, 't, 'b, 'r) task \<Rightarrow> upstream_request \<Rightarrow> bool" where
  "sender_ok st t req \<longleftrightarrow> \<not> pending t \<and> permitted (fst (task_rq t)) (snd (task_rq t)) st req"

definition sources ::
  "('k, 'l) inner \<Rightarrow> ('k, 'l, 't, 'b, 'r) task list \<Rightarrow> (nat \<times> upstream_request) list \<Rightarrow> bool" where
  "sources st ts senders \<longleftrightarrow> distinct (map fst senders) \<and>
     (\<forall>(i, req) \<in> set senders. i < length ts \<and> sender_ok st (ts ! i) req)"

lemma sources_arrive: "sources st ts senders \<Longrightarrow> sources st (ts @ [t]) senders"
  by (auto simp: sources_def nth_append)

lemma sources_advance:
  assumes "sources st ts senders" and "advance (ts ! i) gw = (t', gw')"
  shows "sources st (ts[i := t']) senders"
proof -
  have "sender_ok st (ts[i := t'] ! j) req" if "sender_ok st (ts ! j) req" "j < length ts" for j req
    using that advance_pending [OF assms(2)] advance_task_rq [OF assms(2)]
    by (cases "j = i") (auto simp: sender_ok_def)
  with assms(1) show ?thesis by (auto simp: sources_def)
qed

lemma sources_send:
  assumes "sources st ts senders" and "i < length ts" and "pending (ts ! i)" and "\<not> pending t'"
    and "advance (ts ! i) gw = (t', gw')"
    and "permitted (fst (task_rq (ts ! i))) (snd (task_rq (ts ! i))) st req"
  shows "sources st (ts[i := t']) (senders @ [(i, req)])"
proof -
  from assms(1,3) have "i \<notin> set (map fst senders)" by (auto simp: sources_def sender_ok_def)
  moreover from assms(4,6) have "sender_ok st t' req"
    by (simp add: sender_ok_def advance_task_rq [OF assms(5)])
  ultimately show ?thesis
    using sources_advance [OF assms(1,5)] assms(2) by (auto simp: sources_def)
qed

lemma reach_sources:
  assumes "reach ck gw0 gw ts tr"
  shows "\<exists>senders. gw_sent gw = gw_sent gw0 @ map snd senders \<and> length senders \<le> length (filter snd tr) \<and>
    sources (gw_inner gw0) ts senders"
  using assms
proof (induction rule: reach.induct)
  case idle
  then show ?case by (simp add: sources_def)
next
  case (arrive gw ts tr x rq)
  with sources_arrive show ?case by metis
next
  case (progress gw ts tr i t' gw')
  from progress.IH obtain senders where senders: "gw_sent gw = gw_sent gw0 @ map snd senders"
    "length senders \<le> length (filter snd tr)" "sources (gw_inner gw0) ts senders" by blast
  from reach_config [OF progress.hyps(1)] progress.hyps(2)
  have conf: "same_config (gw_inner gw0) (gw_inner gw)" and ok: "task_ok (gw_inner gw0) (ts ! i)" by simp_all
  from advance_sent [OF progress.hyps(3) conf ok] consider "gw_sent gw' = gw_sent gw"
    | req where "gw_sent gw' = gw_sent gw @ [req]"
        "permitted (fst (task_rq (ts ! i))) (snd (task_rq (ts ! i))) (gw_inner gw0) req"
        "filter snd (checks_of (ts ! i) gw) \<noteq> []" "pending (ts ! i)" "\<not> pending t'"
    by blast
  then show ?case
  proof cases
    case 1
    with senders sources_advance [OF senders(3) progress.hyps(3)] show ?thesis
      by (intro exI [of _ senders]) simp
  next
    case 2
    from 2(3) have "1 \<le> length (filter snd (checks_of (ts ! i) gw))" by (simp add: Suc_le_eq)
    with 2(1) senders sources_send [OF senders(3) progress.hyps(2) 2(4,5) progress.hyps(3) 2(2)]
    show ?thesis by (intro exI [of _ "senders @ [(i, req)]"]) simp
  qed
qed

lemma reach_sent:
  assumes "reach ck gw0 gw ts tr"
  shows "\<exists>new. gw_sent gw = gw_sent gw0 @ new \<and> length new \<le> length (filter snd tr) \<and>
    (\<forall>req \<in> set new. \<exists>x rq. (x, rq) \<in> set (map task_rq ts) \<and> permitted x rq (gw_inner gw0) req)"
proof -
  from reach_sources [OF assms] obtain senders where senders: "gw_sent gw = gw_sent gw0 @ map snd senders"
    "length senders \<le> length (filter snd tr)" "sources (gw_inner gw0) ts senders" by blast
  have "\<exists>x rq. (x, rq) \<in> set (map task_rq ts) \<and> permitted x rq (gw_inner gw0) req"
    if "(i, req) \<in> set senders" for i req
  proof -
    from senders(3) that have "i < length ts" "sender_ok (gw_inner gw0) (ts ! i) req" by (auto simp: sources_def)
    then have "task_rq (ts ! i) \<in> set (map task_rq ts)"
      "permitted (fst (task_rq (ts ! i))) (snd (task_rq (ts ! i))) (gw_inner gw0) req"
      by (simp_all add: sender_ok_def)
    then show ?thesis by (metis prod.collapse)
  qed
  with senders(1,2) show ?thesis by (intro exI [of _ "map snd senders"]) auto
qed

lemma advance_limiters:
  assumes "advance t gw = (t', gw')" and "x_check_key (fst (task_rq t)) = ck"
  shows "(checks_of t gw = [] \<and> in_rate_limiters (gw_inner gw') = in_rate_limiters (gw_inner gw)) \<or>
    (\<exists>now key. checks_of t gw = [((now, key), fst (check_pair ck now (in_rate_limiters (gw_inner gw)) key))] \<and>
       in_rate_limiters (gw_inner gw') = snd (check_pair ck now (in_rate_limiters (gw_inner gw)) key))"
proof (cases t)
  case (Received x rq)
  from assms(1) [unfolded Received] show ?thesis
    by (cases rule: advance_Received_cases) (simp_all add: Received)
next
  case (Authenticated x rq p)
  have pair: "check_pair ck (x_clock x) l (s, n) = check (x_check_key x) (x_clock x) l s n" for l s n
    using assms(2) by (simp add: Authenticated check_pair_def)
  from assms(1) [unfolded Authenticated] show ?thesis
  proof (cases rule: advance_Authenticated_cases)
    case (over_budget body c resp)
    then show ?thesis
      by (intro disjI2 exI [of _ "x_clock x"] exI [of _ "(cl_scope c, pr_name p)"])
        (simp add: pair Authenticated within_budget_def charged_def)
  next
    case (forwarded body c r vars res)
    then show ?thesis
      by (intro disjI2 exI [of _ "x_clock x"] exI [of _ "(cl_scope c, pr_name p)"])
        (simp add: pair Authenticated within_budget_def charged_def)
  qed (simp_all add: Authenticated)
next
  case (Waiting x rq p body c vars res)
  with assms(1) show ?thesis using advance_Waiting by fastforce
next
  case (Responded x rq resp)
  with assms(1) show ?thesis by auto
qed

lemma reach_checks:
  assumes "reach ck gw0 gw ts tr"
  shows "map snd tr = run_checks (check_pair ck) (in_rate_limiters (gw_inner gw0)) (map fst tr) \<and>
    in_rate_limiters (gw_inner gw) = run_state (check_pair ck) (in_rate_limiters (gw_inner gw0)) (map fst tr)"
  using assms
proof (induction rule: reach.induct)
  case (progress gw ts tr i t' gw')
  from reach_config [OF progress.hyps(1)] progress.hyps(2)
  have "x_check_key (fst (task_rq (ts ! i))) = ck" by simp
  from advance_limiters [OF progress.hyps(3) this] progress.IH show ?case
    by (auto simp: run_checks_snoc run_state_snoc)
qed simp_all

text \<open>The answers in the later part of a run, for one principal and scope.\<close>

lemma reach_answers:
  assumes "reach ck gw0 gw ts (earlier @ window)"
  shows "\<exists>new. answers_for k (map fst earlier @ map fst window)
      (run_checks (check_pair ck) (in_rate_limiters (gw_inner gw0)) (map fst earlier @ map fst window)) =
      answers_for k (map fst earlier)
        (run_checks (check_pair ck) (in_rate_limiters (gw_inner gw0)) (map fst earlier)) @ new \<and>
    length (filter (\<lambda>((now, key), ok). key = k \<and> ok) window) = length (filter (\<lambda>ok. ok) new)"
proof -
  let ?l = "in_rate_limiters (gw_inner gw0)"
  let ?rest = "run_checks (check_pair ck) (run_state (check_pair ck) ?l (map fst earlier)) (map fst window)"
  from reach_checks [OF assms] have "map snd earlier @ map snd window =
      run_checks (check_pair ck) ?l (map fst earlier) @ ?rest"
    by (simp add: run_checks_append)
  then have "map snd window = ?rest" by (simp add: append_eq_append_conv)
  then show ?thesis
    by (intro exI [of _ "answers_for k (map fst window) ?rest"])
      (simp add: run_checks_append answers_for_append length_answers_for)
qed

lemma reach_grows: "reach ck gw0 gw ts tr \<Longrightarrow> grows gw0 gw"
proof (induction rule: reach.induct)
  case (progress gw ts tr i t' gw')
  with advancing.effect_grows [of gw "ts ! i"] show ?case by (auto intro: grows_trans)
qed simp_all

section \<open>Accounting\<close>

text \<open>
  Every answered request is in exactly one counter, except one whose body could not be read: nothing
  counts it.
\<close>

definition responses_counted :: "metrics \<Rightarrow> nat" where
  "responses_counted m =
     auth_failures_total m + authz_denied_total m + parse_errors_total m + rate_limited_total m +
     counted m ''read'' + counted m ''write''"

fun is_responded :: "('k, 'l, 't, 'b, 'r) task \<Rightarrow> bool" where
  "is_responded (Responded x rq resp) = True"
| "is_responded _ = False"

definition unreadable :: "('k, 'l) inner \<Rightarrow> ('k, 'l, 't, 'b, 'r) ext \<times> 'r request \<Rightarrow> bool" where
  "unreadable st = (\<lambda>(x, rq). (\<exists>p. verdict x rq st = Ok p) \<and>
     (\<exists>e. x_to_bytes x (rq_body rq) (in_body_limit st) = Err e))"

definition oversized :: "('k, 'l) inner \<Rightarrow> ('k, 'l, 't, 'b, 'r) task \<Rightarrow> bool" where
  "oversized st t \<longleftrightarrow> is_responded t \<and> unreadable st (task_rq t)"

lemma responses_counted_inc [simp]:
  "responses_counted (inc_auth_failure m) = Suc (responses_counted m)"
  "responses_counted (inc_authz_denied m) = Suc (responses_counted m)"
  "responses_counted (inc_parse_error m) = Suc (responses_counted m)"
  "responses_counted (inc_rate_limited m) = Suc (responses_counted m)"
  by (simp_all add: responses_counted_def inc_defs counted_def support_def)

lemma responses_counted_record:
  assumes "metrics_ok m"
  shows "responses_counted (record_request (scope_str s) p st lat m) = Suc (responses_counted m)"
proof -
  from assms have "finite (support m)" by (simp add: metrics_ok_def)
  moreover have "auth_failures_total (record_request a p st lat m) = auth_failures_total m"
    "authz_denied_total (record_request a p st lat m) = authz_denied_total m"
    "parse_errors_total (record_request a p st lat m) = parse_errors_total m"
    "rate_limited_total (record_request a p st lat m) = rate_limited_total m" for a
    by (simp_all add: record_request_def Let_def)
  ultimately show ?thesis
    by (cases s) (simp_all add: responses_counted_def counted_record_request)
qed

lemma length_filter_update:
  "i < length ts \<Longrightarrow>
     length (filter P (ts[i := t])) + (if P (ts ! i) then 1 else 0) =
     length (filter P ts) + (if P t then 1 else 0)"
proof (induction ts arbitrary: i)
  case Nil
  then show ?case by simp
next
  case (Cons a ts)
  then show ?case by (cases i) auto
qed

lemma advance_metrics:
  assumes "advance t gw = (t', gw')" and "same_config st (gw_inner gw)" and "task_ok st t"
    and "metrics_ok (gw_metrics gw)"
  shows "metrics_ok (gw_metrics gw') \<and>
    responses_counted (gw_metrics gw') + (if oversized st t' then 1 else 0) + (if is_responded t then 1 else 0) =
    responses_counted (gw_metrics gw) + (if oversized st t then 1 else 0) + (if is_responded t' then 1 else 0)"
proof (cases t)
  case (Received x rq)
  from assms(1) [unfolded Received] show ?thesis
    using assms(2,4)
    by (cases rule: advance_Received_cases)
      (simp_all add: Received oversized_def unreadable_def metrics_ok_inc same_config_eq)
next
  case (Authenticated x rq p)
  from assms(1) [unfolded Authenticated] show ?thesis
    using assms(2-4)
    by (cases rule: advance_Authenticated_cases)
      (auto simp: Authenticated oversized_def unreadable_def metrics_ok_inc same_config_eq)
next
  case (Waiting x rq p body c vars res)
  with assms(1) have "t' = Responded x rq (fst (finish_stage x rq p c vars res gw))"
    "gw' = snd (finish_stage x rq p c vars res gw)"
    using advance_Waiting by blast+
  with assms(3,4) Waiting show ?thesis
    by (simp add: oversized_def unreadable_def admitted_def metrics_ok_record_request responses_counted_record)
next
  case (Responded x rq resp)
  with assms(1,4) show ?thesis by auto
qed

lemma reach_metrics:
  assumes "reach ck gw0 gw ts tr" and "metrics_ok (gw_metrics gw0)"
  shows "metrics_ok (gw_metrics gw) \<and>
    responses_counted (gw_metrics gw) + length (filter (oversized (gw_inner gw0)) ts) =
    responses_counted (gw_metrics gw0) + length (filter is_responded ts)"
  using assms
proof (induction rule: reach.induct)
  case idle
  then show ?case by simp
next
  case (arrive gw ts tr x rq)
  then show ?case by (simp add: oversized_def)
next
  case (progress gw ts tr i t' gw')
  from reach_config [OF progress.hyps(1)] progress.hyps(2)
  have "same_config (gw_inner gw0) (gw_inner gw)" "task_ok (gw_inner gw0) (ts ! i)" by simp_all
  from advance_metrics [OF progress.hyps(3) this] progress.IH [OF progress.prems]
    length_filter_update [OF progress.hyps(2), of "oversized (gw_inner gw0)" t']
    length_filter_update [OF progress.hyps(2), of is_responded t']
  show ?case by linarith
qed

section \<open>Advancing alone is handling\<close>

fun advance_done :: "nat \<Rightarrow> ('k, 'l, 't, 'b, 'r) task \<Rightarrow> ('k, 'l) gateway \<Rightarrow> ('k, 'l, 't, 'b, 'r) task \<times> ('k, 'l) gateway" where
  "advance_done 0 t gw = (t, gw)"
| "advance_done (Suc n) t gw = (case advance t gw of (t', gw') \<Rightarrow> advance_done n t' gw')"

lemma advance_three:
  "advance_done 3 t g =
     (case advance t g of (t1, g1) \<Rightarrow> case advance t1 g1 of (t2, g2) \<Rightarrow> advance t2 g2)"
  by (simp add: numeral_3_eq_3 split: prod.split)

lemma advance_done_handle:
  "advance_done 3 (Received x rq) gw = (Responded x rq (fst (handle x rq gw)), snd (handle x rq gw))"
proof -
  obtain r1 g1 where 1: "authn_stage x rq gw = (r1, g1)" by fastforce
  show ?thesis
  proof (cases r1)
    case (Inl resp)
    with 1 show ?thesis by (simp add: advance_three handle_def)
  next
    case (Inr p)
    obtain r2 g2 where 2: "admit_stage x rq p g1 = (r2, g2)" by fastforce
    with 1 Inr show ?thesis
      by (cases r2) (auto simp: advance_three handle_def forward_stage_def Let_def case_prod_beta)
  qed
qed

text \<open>The check that a request makes when it is handled at once.\<close>

fun decision_checks :: "('k, 'l, 't, 'b, 'r) ext \<Rightarrow> decision \<Rightarrow> 't check_event list" where
  "decision_checks x (Forward p body c) = [((x_clock x, cl_scope c, pr_name p), True)]"
| "decision_checks x (OverBudget p c) = [((x_clock x, cl_scope c, pr_name p), False)]"
| "decision_checks x _ = []"

lemma checks_of_decision:
  assumes "verdict x rq (gw_inner gw) = Ok p"
  shows "checks_of (Authenticated x rq p) gw = decision_checks x (decide x rq (gw_inner gw))"
  using assms by (auto simp: decide_def decide_on_body_def split: sum.split)

lemma checks_of_other:
  "(\<And>x rq p. t \<noteq> Authenticated x rq p) \<Longrightarrow> checks_of t gw = []"
proof (cases t)
  case (Authenticated x rq p)
  assume "\<And>x rq p. t \<noteq> Authenticated x rq p"
  with Authenticated show ?thesis by blast
qed simp_all

text \<open>Handling a request to the end, with nothing in between, continues any run.\<close>

lemma reach_handle:
  assumes "reach ck gw0 gw ts tr" and "x_check_key x = ck"
  shows "reach ck gw0 (snd (handle x rq gw)) (ts @ [Responded x rq (fst (handle x rq gw))])
    (tr @ decision_checks x (decide x rq (gw_inner gw)))"
proof -
  let ?n = "length ts"
  obtain t1 g1 where 1: "advance (Received x rq) gw = (t1, g1)" by fastforce
  obtain t2 g2 where 2: "advance t1 g1 = (t2, g2)" by fastforce
  obtain t3 g3 where 3: "advance t2 g2 = (t3, g3)" by fastforce
  from advance_done_handle [of x rq gw] 1 2 3
  have t3: "t3 = Responded x rq (fst (handle x rq gw))" and g3: "g3 = snd (handle x rq gw)"
    by (simp_all add: advance_three)
  have r0: "reach ck gw0 gw (ts @ [Received x rq]) tr" by (rule reach.arrive [OF assms])
  have r1: "reach ck gw0 g1 (ts @ [t1]) tr"
    using reach.progress [OF r0, of ?n t1 g1] 1 by simp
  have r2: "reach ck gw0 g2 (ts @ [t2]) (tr @ checks_of t1 g1)"
    using reach.progress [OF r1, of ?n t2 g2] 2 by simp
  have r3: "reach ck gw0 g3 (ts @ [t3]) ((tr @ checks_of t1 g1) @ checks_of t2 g2)"
    using reach.progress [OF r2, of ?n t3 g3] 3 by simp
  have "checks_of t1 g1 = decision_checks x (decide x rq (gw_inner gw)) \<and> checks_of t2 g2 = []"
    using 1
  proof (cases rule: advance_Received_cases)
    case (refused e resp)
    with 2 show ?thesis by (auto simp: decide_Unauthenticated_iff [THEN iffD2])
  next
    case (authenticated p)
    from 2 authenticated have "checks_of t2 g2 = []"
      by (intro checks_of_other) (auto simp: Let_def case_prod_beta split: prod.splits sum.splits)
    with authenticated checks_of_decision [OF authenticated(1)] show ?thesis by simp
  qed
  with r3 t3 g3 show ?thesis by simp
qed

lemma ex_reach:
  "reach gcra_check (ex_gateway True)
     (snd (handle ex_ext (ex_request ex_auth ''POST'' ''/'' ''forged'') (ex_gateway True)))
     [Responded ex_ext (ex_request ex_auth ''POST'' ''/'' ''forged'')
        (fst (handle ex_ext (ex_request ex_auth ''POST'' ''/'' ''forged'') (ex_gateway True)))]
     [((0, ScopeWrite, ''op''), True)]"
proof -
  have g: "gw_inner (ex_gateway True) = ex_inner True" by (simp add: ex_gateway_def)
  have x: "x_check_key ex_ext = gcra_check" "x_clock ex_ext = 0" by (simp_all add: ex_ext_def)
  from reach_handle [OF reach.idle [of gcra_check "ex_gateway True"] x(1),
    of "ex_request ex_auth ''POST'' ''/'' ''forged''"]
  show ?thesis unfolding g ex_decide_write
    by (simp add: x ex_classification_def ex_op_def principal_new_def)
qed

section \<open>Main theorems\<close>

text \<open>
  C6. In every interleaving of any number of requests, each request that reached an upstream belongs
  to a request that arrived, was authenticated, was classified from the very body that was sent and
  was authorized under the initial configuration; there are no more of them than positive answers of
  the rate limiter, and no request changes the configuration.
\<close>

theorem runs_only_permitted:
  assumes "reach ck gw0 gw ts tr"
  shows "same_config (gw_inner gw0) (gw_inner gw) \<and>
    (\<exists>new. gw_sent gw = gw_sent gw0 @ new \<and> length new \<le> length (filter snd tr) \<and>
      (\<forall>req \<in> set new. \<exists>x rq. (x, rq) \<in> set (map task_rq ts) \<and> permitted x rq (gw_inner gw0) req))"
  using reach_config [OF assms] reach_sent [OF assms] by blast

theorem runs_only_permitted_witness:
  "permitted ex_ext (ex_request ex_auth ''POST'' ''/'' ''forged'') (gw_inner (ex_gateway True))
     \<lparr>ur_method = ''POST'', ur_url = ''http://m:1/'', ur_headers = [(''accept'', ''*'')], ur_body = ''forged''\<rparr>"
proof -
  have "gw_sent (ex_gateway True) = []" by (simp add: ex_gateway_def)
  moreover from runs_only_permitted [OF ex_reach, THEN conjunct2] obtain new where
    "gw_sent (snd (handle ex_ext (ex_request ex_auth ''POST'' ''/'' ''forged'') (ex_gateway True))) =
      gw_sent (ex_gateway True) @ new"
    "\<forall>req \<in> set new. permitted ex_ext (ex_request ex_auth ''POST'' ''/'' ''forged'') (gw_inner (ex_gateway True)) req"
    by auto
  ultimately show ?thesis unfolding ex_sent_write by auto
qed

text \<open>
  C7. In every interleaving, and after whatever history, a principal is let through for a scope only
  as often as its budget allows: of the checks that reach the limiter in a window of time, at most the
  budget and the share of it that is replenished in that time pass, so at one instant at most the
  budget. If the principal made no check for the scope in the minute before, then of its checks at the
  next instant as many pass as there are, up to the full budget. The checks of the principal for the
  scope are taken to be made in the order of the clock. What other principals and other scopes do
  in between does not matter.
\<close>

theorem runs_within_budget:
  assumes "reach ck gw0 gw ts (earlier @ window)"
    and "governor quota_new keyed ck cell fresh step remaining"
    and "refill_bounded 60 fresh step cap level" and "replenishes 60 fresh step remaining cap idle"
    and "in_rate_limiters (gw_inner gw0) = rate_limiters_new quota_new keyed r w" and "budget r w s \<noteq> 0"
    and "sorted_wrt (\<le>) (times_for (s, name) (map fst window))"
    and "\<forall>t \<in> set (times_for (s, name) (map fst window)). start \<le> t \<and> t \<le> start + duration"
    and "0 \<le> duration"
  shows "of_nat (length (filter (\<lambda>((now, key), ok). key = (s, name) \<and> ok) window)) \<le>
      of_nat (unat (budget r w s)) * (1 + duration / 60) \<and>
    (sorted_wrt (\<le>) (times_for (s, name) (map fst earlier)) \<and>
     (\<forall>t \<in> set (times_for (s, name) (map fst earlier)). t + 60 \<le> start) \<and>
     times_for (s, name) (map fst window) = replicate m start \<longrightarrow>
       length (filter (\<lambda>((now, key), ok). key = (s, name) \<and> ok) window) = min m (unat (budget r w s)))"
proof -
  let ?l = "rate_limiters_new quota_new keyed r w" and ?k = "(s, name)"
  let ?run = "run_checks (check_pair ck) ?l"
  let ?passed = "length (filter (\<lambda>((now, key), ok). key = ?k \<and> ok) window)"
  from reach_answers [OF assms(1), of ?k] obtain new where
    all: "answers_for ?k (map fst earlier @ map fst window) (?run (map fst earlier @ map fst window)) =
      answers_for ?k (map fst earlier) (?run (map fst earlier)) @ new"
    and new: "?passed = length (filter (\<lambda>ok. ok) new)"
    by (auto simp: assms(5))
  from window_answers [OF assms(2,3,6-9), of "map fst earlier"] all new
  have "of_nat ?passed \<le> of_nat (unat (budget r w s)) * (1 + duration / 60)" by auto
  moreover have "?passed = min m (unat (budget r w s))"
    if "sorted_wrt (\<le>) (times_for ?k (map fst earlier))"
      "\<forall>t \<in> set (times_for ?k (map fst earlier)). t + 60 \<le> start"
      "times_for ?k (map fst window) = replicate m start"
    using recovered_answers [OF assms(2,4,6) that] all new by simp
  ultimately show ?thesis by blast
qed

theorem runs_within_budget_witness:
  "length (filter (\<lambda>((now, key), ok). key = (ScopeWrite, ''op'') \<and> ok)
     [((0 :: rat, ScopeWrite, ''op''), True)]) = min 1 (unat (budget 0 2 ScopeWrite))"
proof -
  have r: "reach gcra_check (ex_gateway True)
     (snd (handle ex_ext (ex_request ex_auth ''POST'' ''/'' ''forged'') (ex_gateway True)))
     [Responded ex_ext (ex_request ex_auth ''POST'' ''/'' ''forged'')
        (fst (handle ex_ext (ex_request ex_auth ''POST'' ''/'' ''forged'') (ex_gateway True)))]
     ([] @ [((0, ScopeWrite, ''op''), True)])"
    using ex_reach by simp
  show ?thesis
    by (rule runs_within_budget [OF r gcra_governor gcra_refill gcra_replenishes, where start = 0 and duration = 0,
      THEN conjunct2, THEN mp]) (simp_all add: ex_gateway_def ex_inner_def budget_def)
qed

text \<open>
  C23. The counters reconcile with the requests: at any point of any interleaving every answered
  request has been counted in exactly one of the six kinds of series, except the authenticated ones
  whose body could not be read, which no series counts; and the latency histogram of each scope has
  as many samples as requests are counted for the scope.
\<close>

theorem runs_accounted:
  assumes "reach ck gw0 gw ts tr" and "gw_metrics gw0 = metrics_start"
  shows "responses_counted (gw_metrics gw) + length (filter (oversized (gw_inner gw0)) ts) =
      length (filter is_responded ts) \<and>
    counted (gw_metrics gw) s = length (proxy_latency_seconds (gw_metrics gw) s)"
proof -
  have "responses_counted metrics_start = 0"
    by (simp add: responses_counted_def metrics_start_def counted_def support_def)
  with reach_metrics [OF assms(1)] metrics_ok_start assms(2) show ?thesis
    by (simp add: metrics_ok_def)
qed

theorem runs_accounted_witness:
  "counted (gw_metrics (snd (handle ex_ext (ex_request ex_auth ''POST'' ''/'' ''forged'') (ex_gateway True)))) ''write'' =
   length (proxy_latency_seconds (gw_metrics
     (snd (handle ex_ext (ex_request ex_auth ''POST'' ''/'' ''forged'') (ex_gateway True)))) ''write'')"
  by (rule runs_accounted [OF ex_reach, THEN conjunct2]) (simp add: ex_gateway_def)

text \<open>
  The logs are append-only: in every interleaving the lines of the audit log, its traced errors,
  the upstream log and the warnings of a state are still there, in the same order and at the same
  place, after any further step, and the state of any run extends the one it started from.
\<close>

lemma runs_append_only:
  assumes "reach ck gw0 gw ts tr"
  shows "prefix (al_lines (gw_audit gw0)) (al_lines (gw_audit gw)) \<and>
    prefix (al_lines (gw_audit gw)) (al_lines (gw_audit (snd (advance t gw)))) \<and>
    prefix (gw_sent gw0) (gw_sent gw) \<and> prefix (gw_sent gw) (gw_sent (snd (advance t gw))) \<and>
    prefix (al_errors (gw_audit gw)) (al_errors (gw_audit (snd (advance t gw)))) \<and>
    prefix (gw_warnings gw) (gw_warnings (snd (advance t gw)))"
  using reach_grows [OF assms] advancing.effect_grows [of gw t] by (simp add: grows_def)

end
