(* ===== verification/Iga_Isolation.thy ===== *)
theory Iga_Isolation
  imports Iga_Runs
begin

text \<open>
  Concurrent requests do not influence each other's answers, except through the rate limiter. The
  answer to a request in any interleaving is the one the handler gives when the request is alone,
  up to the one bit that the limiter contributes; without limits it is exactly that answer.
\<close>

section \<open>The decision, given the answer of the limiter\<close>

definition decide_given ::
  "bool \<Rightarrow> ('k, 'l, 't, 'b, 'r) ext \<Rightarrow> 'r request \<Rightarrow> ('k, 'l) inner \<Rightarrow> decision" where
  "decide_given ok x rq st =
     (case verdict x rq st of
        Inl e \<Rightarrow> Unauthenticated e
      | Inr p \<Rightarrow>
          (case x_to_bytes x (rq_body rq) (in_body_limit st) of
             Inl _ \<Rightarrow> TooLarge
           | Inr body \<Rightarrow>
               (case classified x rq st body of
                  Inl reason \<Rightarrow> Unclassifiable p reason
                | Inr c \<Rightarrow>
                    (case authorize p c (in_policy st) of
                       Inl d \<Rightarrow> Forbidden p c d
                     | Inr _ \<Rightarrow> if ok then Forward p body c else OverBudget p c))))"

lemma decide_given_admitted:
  "admitted x rq st p body c \<Longrightarrow>
     decide_given ok x rq st = (if ok then Forward p body c else OverBudget p c)"
  by (auto simp: decide_given_def admitted_def)

lemma decide_is_given:
  assumes "\<And>p body c. admitted x rq st p body c \<Longrightarrow> within_budget x st p c = ok"
  shows "decide x rq st = decide_given ok x rq st"
proof (cases "\<exists>p body c. admitted x rq st p body c")
  case True
  then obtain p body c where a: "admitted x rq st p body c" by blast
  with assms [OF a] show ?thesis
    by (cases ok) (auto simp: decide_given_admitted [OF a] decide_iffs admitted_def)
next
  case False
  then show ?thesis
    by (auto simp: decide_given_def decide_def decide_on_body_def admitted_def split: sum.split)
qed

text \<open>The response to a decision depends on the configuration of the gateway only.\<close>

lemma upstream_result_config:
  "in_proxy (gw_inner gw) = in_proxy (gw_inner gw') \<Longrightarrow>
     fst (upstream_result x rq gw body) = fst (upstream_result x rq gw' body)"
  by (simp add: upstream_result_def forward_def Let_def case_prod_beta split: sum.split)

section \<open>Answers along a run\<close>

definition answer ::
  "bool \<Rightarrow> ('k, 'l) gateway \<Rightarrow> ('k, 'l, 't, 'b, 'r) ext \<Rightarrow> 'r request \<Rightarrow> response" where
  "answer ok gw0 x rq = decision_response x rq gw0 (decide_given ok x rq (gw_inner gw0))"

text \<open>The limiter answered no for a request that got that far.\<close>

definition turned_down ::
  "('k, 'l) inner \<Rightarrow> ('k, 'l, 't, 'b, 'r) ext \<Rightarrow> 'r request \<Rightarrow> 't check_event list \<Rightarrow> bool" where
  "turned_down st x rq tr \<longleftrightarrow>
     (\<exists>p body c. admitted x rq st p body c \<and> ((x_clock x, cl_scope c, pr_name p), False) \<in> set tr)"

fun on_course :: "('k, 'l) gateway \<Rightarrow> 't check_event list \<Rightarrow> ('k, 'l, 't, 'b, 'r) task \<Rightarrow> bool" where
  "on_course gw0 tr (Received x rq) = True"
| "on_course gw0 tr (Authenticated x rq p) = (verdict x rq (gw_inner gw0) = Ok p)"
| "on_course gw0 tr (Waiting x rq p body c vars res) =
     (admitted x rq (gw_inner gw0) p body c \<and> res = fst (upstream_result x rq gw0 body))"
| "on_course gw0 tr (Responded x rq resp) =
     (resp = answer True gw0 x rq \<or> resp = answer False gw0 x rq \<and> turned_down (gw_inner gw0) x rq tr)"

lemma on_course_later: "on_course gw0 tr t \<Longrightarrow> on_course gw0 (tr @ tr') t"
  by (cases t) (auto simp: turned_down_def)

lemma admit_answers:
  assumes "advance (Authenticated x rq p) gw = (t', gw')" and conf: "same_config (gw_inner gw0) (gw_inner gw)"
    and v: "verdict x rq (gw_inner gw0) = Ok p"
  shows "on_course gw0 (checks_of (Authenticated x rq p) gw) t'"
proof (cases "x_to_bytes x (rq_body rq) (in_body_limit (gw_inner gw0))")
  case (Inl e)
  with assms show ?thesis
    by (auto simp: admit_stage_eq same_config_eq answer_def decide_given_def)
next
  case body: (Inr body)
  note eqs = same_config_eq [OF conf]
  show ?thesis
  proof (cases "classified x rq (gw_inner gw0) body")
    case (Inl e)
    with assms(1) body v show ?thesis by (auto simp: admit_stage_eq eqs answer_def decide_given_def)
  next
    case c: (Inr c)
    show ?thesis
    proof (cases "authorize p c (in_policy (gw_inner gw0))")
      case (Inl d)
      with assms(1) body c v show ?thesis by (auto simp: admit_stage_eq eqs answer_def decide_given_def)
    next
      case (Inr r)
      with body c v have a: "admitted x rq (gw_inner gw0) p body c" by (simp add: admitted_def)
      show ?thesis
      proof (cases "within_budget x (gw_inner gw) p c")
        case True
        with assms(1) body c Inr
        have "t' = Waiting x rq p body c (extract_variables (x_value_from_slice x) body) (fst (upstream_result x rq gw body))"
          by (auto simp: admit_stage_eq eqs upstream_result_def case_prod_beta)
        with a upstream_result_config [of gw gw0 x rq body] show ?thesis by (simp add: eqs)
      next
        case False
        with assms(1) body c Inr
        have "t' = Responded x rq (error_response (x_json_print x) 429 ''rate limit exceeded'' False)"
          "checks_of (Authenticated x rq p) gw = [((x_clock x, cl_scope c, pr_name p), False)]"
          by (auto simp: admit_stage_eq eqs)
        with a show ?thesis by (auto simp: answer_def decide_given_admitted [OF a] turned_down_def)
      qed
    qed
  qed
qed

lemma advance_on_course:
  assumes "advance t gw = (t', gw')" and conf: "same_config (gw_inner gw0) (gw_inner gw)" and "on_course gw0 tr t"
  shows "on_course gw0 (tr @ checks_of t gw) t'"
proof (cases t)
  case (Received x rq)
  with assms show ?thesis
    by (cases "verdict x rq (gw_inner gw0)")
      (auto simp: authn_stage_eq same_config_eq answer_def decide_given_def)
next
  case (Authenticated x rq p)
  have "on_course gw0 (checks_of t gw) t'"
    unfolding Authenticated
    by (rule admit_answers [OF assms(1) [unfolded Authenticated] conf]) (use assms(3) Authenticated in simp)
  then show ?thesis by (cases t') (auto simp: turned_down_def)
next
  case (Waiting x rq p body c vars res)
  from advance_Waiting [OF assms(1) [unfolded Waiting]]
  have t': "t' = Responded x rq (fst (finish_stage x rq p c vars res gw))" ..
  from assms(3) Waiting have a: "admitted x rq (gw_inner gw0) p body c"
    and res: "res = fst (upstream_result x rq gw0 body)" by simp_all
  show ?thesis
    unfolding t' using res
    by (cases res) (simp_all add: answer_def decide_given_admitted [OF a] finish_stage_Ok finish_stage_Err split: sum.split)
next
  case (Responded x rq resp)
  with assms show ?thesis by (auto simp: turned_down_def)
qed

lemma reach_on_course:
  assumes "reach ck gw0 gw ts tr"
  shows "\<forall>t \<in> set ts. on_course gw0 tr t"
  using assms
proof (induction rule: reach.induct)
  case idle
  then show ?case by simp
next
  case (arrive gw ts tr x rq)
  then show ?case by auto
next
  case (progress gw ts tr i t' gw')
  from reach_config [OF progress.hyps(1)] have "same_config (gw_inner gw0) (gw_inner gw)" by simp
  moreover have "on_course gw0 tr (ts ! i)" using progress.IH progress.hyps(2) by simp
  ultimately have "on_course gw0 (tr @ checks_of (ts ! i) gw) t'"
    using progress.hyps(3) advance_on_course by blast
  with progress.IH show ?case
    by (auto dest!: set_update_subset_insert [THEN subsetD] intro: on_course_later)
qed

text \<open>Without limiters no check is ever refused.\<close>

lemma unlimited_checks:
  assumes "rl_read l = None" and "rl_write l = None"
  shows "run_checks (check_pair ck) l trace = replicate (length trace) True"
proof (induction trace)
  case (Cons e trace)
  have "check_pair ck now l key = (True, l)" for now key
    using assms by (cases key; cases "fst key") (auto simp: check_pair_def check_def)
  with Cons show ?case by (cases e) simp
qed simp

lemma reach_unlimited:
  assumes "reach ck gw0 gw ts tr" and "rl_read (in_rate_limiters (gw_inner gw0)) = None"
    and "rl_write (in_rate_limiters (gw_inner gw0)) = None" and "(key, ok) \<in> set tr"
  shows ok
proof -
  from reach_checks [OF assms(1)] unlimited_checks [OF assms(2,3)]
  have "map snd tr = replicate (length (map fst tr)) True" by metis
  moreover from assms(4) have "ok \<in> set (map snd tr)" by force
  ultimately show ok by (metis in_set_replicate)
qed

section \<open>Main theorem\<close>

text \<open>
  C8. Concurrent requests are isolated: in every interleaving the answer to a request is a function
  of the request, of what the outside world tells it and of the configuration at the start. It is the
  one that the policy prescribes, or, only if the limiter turned down a check made for its principal
  and scope at its instant, the answer 429. If there are no limits, it is the answer that the handler
  gives to the request alone on the fresh gateway.
\<close>

theorem runs_isolated:
  assumes "reach ck gw0 gw ts tr" and "Responded x rq resp \<in> set ts"
  shows "(resp = decision_response x rq gw0 (decide_given True x rq (gw_inner gw0)) \<or>
      resp = error_response (x_json_print x) 429 ''rate limit exceeded'' False \<and>
      turned_down (gw_inner gw0) x rq tr) \<and>
    (rl_read (in_rate_limiters (gw_inner gw0)) = None \<and> rl_write (in_rate_limiters (gw_inner gw0)) = None \<longrightarrow>
      resp = fst (handle x rq gw0))"
proof -
  let ?st = "gw_inner gw0"
  from reach_on_course [OF assms(1)] assms(2) have course: "on_course gw0 tr (Responded x rq resp)" by blast
  have first: "resp = answer True gw0 x rq \<or>
      resp = error_response (x_json_print x) 429 ''rate limit exceeded'' False \<and> turned_down ?st x rq tr"
    using course by (auto simp: turned_down_def answer_def decide_given_admitted)
  have "resp = fst (handle x rq gw0)"
    if none: "rl_read (in_rate_limiters ?st) = None" "rl_write (in_rate_limiters ?st) = None"
  proof -
    have "\<not> turned_down ?st x rq tr"
      unfolding turned_down_def using reach_unlimited [OF assms(1) none] by blast
    with first have "resp = answer True gw0 x rq" by blast
    moreover have "within_budget x ?st p c" for p c
      using none by (cases "cl_scope c") (simp_all add: within_budget_def check_def)
    then have "decide x rq ?st = decide_given True x rq ?st" by (intro decide_is_given) simp
    ultimately show ?thesis by (simp add: handle_response answer_def)
  qed
  with first show ?thesis by (auto simp: answer_def)
qed

theorem runs_isolated_witness:
  "fst (handle ex_ext (ex_request ex_auth ''POST'' ''/'' ''forged'') (ex_gateway True)) =
   decision_response ex_ext (ex_request ex_auth ''POST'' ''/'' ''forged'') (ex_gateway True)
     (decide_given True ex_ext (ex_request ex_auth ''POST'' ''/'' ''forged'') (gw_inner (ex_gateway True)))"
  using runs_isolated [OF ex_reach, THEN conjunct1] by (auto simp: turned_down_def)

end
