(* ===== verification/Iga_Trail.thy ===== *)
theory Iga_Trail
  imports Iga_Runs
begin

text \<open>
  The audit trail of concurrent requests. \<open>records_of\<close> are the records that one advance of a task
  emits; \<open>advance_audit\<close> says that the advance does just that to the log. Every record is well
  formed: which fields it has is determined by its outcome. Over all interleavings this gives what
  the lines of the log are and how many there are.
\<close>

section \<open>Records of an advance\<close>

fun records_of :: "('k, 'l, 't, 'b, 'r) task \<Rightarrow> ('k, 'l) gateway \<Rightarrow> audit_record list" where
  "records_of (Received x rq) gw =
     (case verdict x rq (gw_inner gw) of
        Inl e \<Rightarrow> [auth_failed_record (x_now x) (rq_peer_ip rq) e]
      | Inr _ \<Rightarrow> [])"
| "records_of (Authenticated x rq p) gw =
     (case x_to_bytes x (rq_body rq) (in_body_limit (gw_inner gw)) of
        Inl _ \<Rightarrow> []
      | Inr body \<Rightarrow>
          (case classified x rq (gw_inner gw) body of
             Inl reason \<Rightarrow> [pre_upstream_record (x_now x) p (rq_peer_ip rq) None (Rejected reason)]
           | Inr c \<Rightarrow>
               (case authorize p c (in_policy (gw_inner gw)) of
                  Inl d \<Rightarrow> [pre_upstream_record (x_now x) p (rq_peer_ip rq) (Some c) (Denied (denied_display d))]
                | Inr _ \<Rightarrow>
                    if within_budget x (gw_inner gw) p c then []
                    else [pre_upstream_record (x_now x) p (rq_peer_ip rq) (Some c) RateLimited])))"
| "records_of (Waiting x rq p body c vars res) gw =
     (let hash = map_option (hash_variables (x_to_vec x) (x_sha256_hex x)) vars in
      case res of
        Inl e \<Rightarrow> [allowed_record (x_now x) p (rq_peer_ip rq) c hash None None (elapsed x)]
      | Inr up \<Rightarrow>
          if cl_scope c = ScopeWrite \<or> in_audit_reads (gw_inner gw)
          then [allowed_record (x_now x) p (rq_peer_ip rq) c hash
            (if in_log_variables (gw_inner gw) then vars else None) (Some (prs_status up)) (elapsed x)]
          else [])"
| "records_of (Responded x rq resp) gw = []"

text \<open>Emitting a list of records on behalf of a request.\<close>

definition emit_all ::
  "('k, 'l, 't, 'b, 'r) ext \<Rightarrow> audit_sink \<Rightarrow> audit_record list \<Rightarrow> audit_log \<Rightarrow> audit_log" where
  "emit_all x sink rs l = fold (emit (x_to_string x) (x_io x) sink) rs l"

lemma emit_all_simps [simp]:
  "emit_all x sink [] l = l"
  "emit_all x sink (r # rs) l = emit_all x sink rs (emit (x_to_string x) (x_io x) sink r l)"
  by (simp_all add: emit_all_def)

lemma advance_audit:
  "gw_audit (snd (advance t gw)) =
     emit_all (fst (task_rq t)) (in_audit (gw_inner gw)) (records_of t gw) (gw_audit gw)"
proof (cases t)
  case (Received x rq)
  then show ?thesis by (simp add: authn_stage_eq effect_defs split: sum.split)
next
  case (Authenticated x rq p)
  then show ?thesis by (simp add: admit_stage_eq effect_defs case_prod_beta split: sum.split)
next
  case (Waiting x rq p body c vars res)
  then show ?thesis
    by (cases res) (simp_all add: finish_stage_Ok finish_stage_Err effect_defs case_prod_beta)
qed simp

section \<open>Well-formed records\<close>

text \<open>
  The fields that go with an outcome. A refused caller has no principal, and a request that was not
  classified no scope. Only an allowed request has a latency and a fingerprint, and an upstream
  status only with them; raw values come with their fingerprint. A mutation is always recorded under
  the scope write.
\<close>

definition wf_record :: "audit_record \<Rightarrow> bool" where
  "wf_record r \<longleftrightarrow>
     (case ar_outcome r of
        Allowed \<Rightarrow> ar_scope r \<noteq> None \<and> ar_latency_ms r \<noteq> None
      | AuthFailed _ \<Rightarrow> ar_principal r = ''-'' \<and> ar_scope r = None
      | Rejected _ \<Rightarrow> ar_scope r = None
      | Denied _ \<Rightarrow> ar_scope r \<noteq> None
      | RateLimited \<Rightarrow> ar_scope r \<noteq> None) \<and>
     (ar_outcome r \<noteq> Allowed \<longrightarrow>
        ar_variables_hash r = None \<and> ar_upstream_status r = None \<and> ar_latency_ms r = None) \<and>
     (ar_scope r = None \<longrightarrow>
        ar_operation_name r = None \<and> ar_operation_kinds r = [] \<and> ar_top_level_fields r = []) \<and>
     (ar_variables r \<noteq> None \<longrightarrow> ar_variables_hash r \<noteq> None) \<and>
     (Mutation \<in> set (ar_operation_kinds r) \<longrightarrow> ar_scope r = Some ScopeWrite)"

lemma classified_mutation:
  assumes "classified x rq st body = Ok c" and "Mutation \<in> oi_kind ` set (cl_operations c)"
  shows "cl_scope c = ScopeWrite"
proof (cases "classify (x_from_slice x) (x_parse_query x) body = Ok c")
  case True
  from assms(2) show ?thesis unfolding classify_scope [OF True] max_scope_or_read_write by force
next
  case False
  with assms have "cl_operations c = []"
    by (auto simp: classified_def classify_request_def read_only_def write_only_def split: sum.splits if_splits)
  with assms(2) show ?thesis by simp
qed

lemma record_fields:
  "ar_source_ip (auth_failed_record now ip e) = Some ip" "ar_variables (auth_failed_record now ip e) = None"
  "ar_source_ip (pre_upstream_record now p ip cl oc) = Some ip" "ar_variables (pre_upstream_record now p ip cl oc) = None"
  "ar_source_ip (allowed_record now p ip c hash vars status lat) = Some ip"
  "ar_variables (allowed_record now p ip c hash vars status lat) = vars"
  by (simp_all add: auth_failed_record_def pre_upstream_record_def allowed_record_def)

lemma wf_auth_failed: "wf_record (auth_failed_record now ip e)"
  by (simp add: wf_record_def auth_failed_record_def)

lemma wf_rejected: "wf_record (pre_upstream_record now p ip None (Rejected reason))"
  by (simp add: wf_record_def pre_upstream_record_def)

lemma wf_refused:
  assumes "classified x rq st body = Ok c" and "oc = Denied reason \<or> oc = RateLimited"
  shows "wf_record (pre_upstream_record now p ip (Some c) oc)"
  using assms(2) classified_mutation [OF assms(1)]
  by (auto simp: wf_record_def pre_upstream_record_def)

lemma wf_allowed:
  assumes "classified x rq st body = Ok c" and "vars \<noteq> None \<longrightarrow> hash \<noteq> None"
  shows "wf_record (allowed_record now p ip c hash vars status lat)"
  using assms(2) classified_mutation [OF assms(1)]
  by (auto simp: wf_record_def allowed_record_def)

lemma same_config_audit:
  assumes "same_config st st'"
  shows "in_audit st' = in_audit st" "in_audit_reads st' = in_audit_reads st"
    "in_log_variables st' = in_log_variables st"
  using assms unfolding same_config_def
  by (metis inner.select_convs inner.surjective inner.update_convs)+

lemma records_of_wf:
  assumes "same_config st (gw_inner gw)" and "task_ok st t" and "r \<in> set (records_of t gw)"
  shows "wf_record r \<and> ar_source_ip r = Some (rq_peer_ip (snd (task_rq t))) \<and>
    (in_log_variables st \<or> ar_variables r = None)"
proof (cases t)
  case (Received x rq)
  with assms(3) show ?thesis
    by (auto simp: wf_auth_failed record_fields split: sum.splits)
next
  case (Authenticated x rq p)
  with assms(3) obtain body where body: "x_to_bytes x (rq_body rq) (in_body_limit (gw_inner gw)) = Ok body"
    by (cases "x_to_bytes x (rq_body rq) (in_body_limit (gw_inner gw))") auto
  show ?thesis
  proof (cases "classified x rq (gw_inner gw) body")
    case (Inl reason)
    with assms(3) Authenticated body show ?thesis by (simp add: wf_rejected record_fields)
  next
    case (Inr c)
    with assms(3) Authenticated body show ?thesis
      by (cases "authorize p c (in_policy (gw_inner gw))")
        (auto simp: record_fields intro: wf_refused [OF Inr] split: if_splits)
  qed
next
  case (Waiting x rq p body c vars res)
  with assms(2) have c: "classified x rq st body = Ok c" by (simp add: admitted_def)
  show ?thesis
    using assms(3) Waiting wf_allowed [OF c] same_config_audit [OF assms(1)]
    by (cases res) (auto simp: Let_def record_fields split: if_splits)
next
  case (Responded x rq resp)
  with assms(3) show ?thesis by simp
qed

section \<open>The lines of a run\<close>

text \<open>A line of the log tells of a well-formed record of a request that arrived.\<close>

definition line_of ::
  "('k, 'l) inner \<Rightarrow> ('k, 'l, 't, 'b, 'r) ext \<times> 'r request \<Rightarrow> string \<Rightarrow> bool" where
  "line_of st = (\<lambda>(x, rq) line. \<exists>r. line = to_json_line (x_to_string x) r \<and> wf_record r \<and>
     ar_source_ip r = Some (rq_peer_ip rq) \<and> (in_log_variables st \<or> ar_variables r = None))"

lemma records_of_short: "length (records_of t gw) \<le> 1"
  by (cases t) (simp_all add: Let_def split: sum.split)

lemma emit_lines:
  "al_lines (emit to_string io sink r l) = al_lines l \<or>
   al_lines (emit to_string io sink r l) = al_lines l @ [to_json_line to_string r]"
  by (cases sink) (auto simp: emit_def write_line_def Let_def split: option.split)

lemma advance_lines:
  assumes "same_config st (gw_inner gw)" and "task_ok st t"
  shows "al_lines (gw_audit (snd (advance t gw))) = al_lines (gw_audit gw) \<or>
    (\<exists>line. al_lines (gw_audit (snd (advance t gw))) = al_lines (gw_audit gw) @ [line] \<and> line_of st (task_rq t) line)"
proof (cases "records_of t gw")
  case Nil
  then show ?thesis by (simp add: advance_audit)
next
  case (Cons r rs)
  with records_of_short [of t gw] have one: "records_of t gw = [r]" by simp
  from records_of_wf [OF assms, of r] one
  have "line_of st (task_rq t) (to_json_line (x_to_string (fst (task_rq t))) r)"
    by (auto simp: line_of_def case_prod_beta)
  with emit_lines [of "x_to_string (fst (task_rq t))" "x_io (fst (task_rq t))" "in_audit (gw_inner gw)" r "gw_audit gw"]
  show ?thesis by (auto simp: advance_audit one)
qed

lemma reach_lines:
  assumes "reach ck gw0 gw ts tr"
  shows "\<exists>new. al_lines (gw_audit gw) = al_lines (gw_audit gw0) @ new \<and>
    (\<forall>line \<in> set new. \<exists>xrq \<in> set (map task_rq ts). line_of (gw_inner gw0) xrq line)"
  using assms
proof (induction rule: reach.induct)
  case idle
  then show ?case by simp
next
  case (arrive gw ts tr x rq)
  then obtain new where "al_lines (gw_audit gw) = al_lines (gw_audit gw0) @ new"
    "\<forall>line \<in> set new. \<exists>xrq \<in> set (map task_rq ts). line_of (gw_inner gw0) xrq line" by blast
  then show ?case by (intro exI [of _ new]) auto
next
  case (progress gw ts tr i t' gw')
  then obtain new where new: "al_lines (gw_audit gw) = al_lines (gw_audit gw0) @ new"
    "\<forall>line \<in> set new. \<exists>xrq \<in> set (map task_rq ts). line_of (gw_inner gw0) xrq line" by blast
  from reach_config [OF progress.hyps(1)] progress.hyps(2)
  have "same_config (gw_inner gw0) (gw_inner gw)" "task_ok (gw_inner gw0) (ts ! i)" by simp_all
  from advance_lines [OF this] progress.hyps(3) consider
    "al_lines (gw_audit gw') = al_lines (gw_audit gw)"
    | line where "al_lines (gw_audit gw') = al_lines (gw_audit gw) @ [line]"
        "line_of (gw_inner gw0) (task_rq (ts ! i)) line"
    by auto
  then show ?case
  proof cases
    case 1
    with new show ?thesis unfolding map_task_rq_update [OF progress.hyps(2,3)] by auto
  next
    case 2
    have "task_rq (ts ! i) \<in> set (map task_rq ts)" using progress.hyps(2) by simp
    with 2 new show ?thesis
      unfolding map_task_rq_update [OF progress.hyps(2,3)] by (intro exI [of _ "new @ [line]"]) auto
  qed
qed

section \<open>How many lines there are\<close>

text \<open>A sink that works for every request, and the reads that are not audited.\<close>

definition sink_works :: "('k, 'l) inner \<Rightarrow> ('k, 'l, 't, 'b, 'r) ext \<Rightarrow> bool" where
  "sink_works st x \<longleftrightarrow>
     in_audit st \<noteq> Null \<and> io_lock_ok (x_io x) \<and> (\<forall>line. io_write_error (x_io x) line = None)"

definition quiet_read :: "('k, 'l) inner \<Rightarrow> ('k, 'l, 't, 'b, 'r) ext \<times> 'r request \<Rightarrow> bool" where
  "quiet_read st = (\<lambda>(x, rq). \<not> in_audit_reads st \<and>
     (\<exists>p body c. admitted x rq st p body c \<and> cl_scope c = ScopeRead))"

definition unaudited :: "('k, 'l) inner \<Rightarrow> ('k, 'l, 't, 'b, 'r) task \<Rightarrow> bool" where
  "unaudited st t \<longleftrightarrow> is_responded t \<and> quiet_read st (task_rq t)"

lemma emit_works:
  assumes "sink_works st x"
  shows "al_lines (emit (x_to_string x) (x_io x) (in_audit st) r l) = al_lines l @ [to_json_line (x_to_string x) r]"
    "al_errors (emit (x_to_string x) (x_io x) (in_audit st) r l) = al_errors l"
  using assms by (cases "in_audit st"; simp add: sink_works_def emit_def write_line_def)+

lemma emit_all_works:
  assumes "sink_works st x"
  shows "length (al_lines (emit_all x (in_audit st) rs l)) = length (al_lines l) + length rs \<and>
    al_errors (emit_all x (in_audit st) rs l) = al_errors l"
  by (induction rs arbitrary: l) (simp_all add: emit_works [OF assms])

text \<open>The balance of one advance: answered requests against records.\<close>

lemma advance_balance:
  assumes "advance t gw = (t', gw')" and "same_config st (gw_inner gw)" and "task_ok st t"
  shows "length (records_of t gw) + of_bool (oversized st t') + of_bool (is_responded t) \<le>
      of_bool (is_responded t') + of_bool (oversized st t) \<and>
    of_bool (is_responded t') + of_bool (oversized st t) + of_bool (unaudited st t) \<le>
      length (records_of t gw) + of_bool (oversized st t') + of_bool (is_responded t) + of_bool (unaudited st t')"
proof (cases t)
  case (Received x rq)
  from assms(1) [unfolded Received] show ?thesis
    using assms(2)
    by (cases rule: advance_Received_cases)
      (simp_all add: Received oversized_def unaudited_def unreadable_def same_config_eq)
next
  case (Authenticated x rq p)
  from assms(3) Authenticated have v: "verdict x rq st = Ok p" by simp
  show ?thesis
  proof (cases "x_to_bytes x (rq_body rq) (in_body_limit (gw_inner gw))")
    case (Inl e)
    with assms(1,2) v show ?thesis
      by (auto simp: Authenticated admit_stage_eq oversized_def unaudited_def unreadable_def same_config_eq)
  next
    case (Inr body)
    from assms(1) [unfolded Authenticated] show ?thesis
      using Inr v same_config_eq [OF assms(2)]
      by (auto simp: Authenticated admit_stage_eq oversized_def unaudited_def unreadable_def Let_def
        case_prod_beta split: sum.splits if_splits)
  qed
next
  case (Waiting x rq p body c vars res)
  with assms(1) have "t' = Responded x rq (fst (finish_stage x rq p c vars res gw))"
    using advance_Waiting by blast
  with assms(3) Waiting same_config_audit [OF assms(2)] show ?thesis
    by (cases res; cases "cl_scope c")
      (auto simp: oversized_def unaudited_def unreadable_def quiet_read_def admitted_def Let_def)
next
  case (Responded x rq resp)
  with assms(1) show ?thesis by auto
qed

lemma reach_balance:
  assumes "reach ck gw0 gw ts tr" and "\<forall>t \<in> set ts. sink_works (gw_inner gw0) (fst (task_rq t))"
  shows "length (al_lines (gw_audit gw)) + length (filter (oversized (gw_inner gw0)) ts) \<le>
      length (al_lines (gw_audit gw0)) + length (filter is_responded ts) \<and>
    length (al_lines (gw_audit gw0)) + length (filter is_responded ts) \<le>
      length (al_lines (gw_audit gw)) + length (filter (oversized (gw_inner gw0)) ts) +
      length (filter (unaudited (gw_inner gw0)) ts) \<and>
    al_errors (gw_audit gw) = al_errors (gw_audit gw0)"
  using assms
proof (induction rule: reach.induct)
  case idle
  then show ?case by simp
next
  case (arrive gw ts tr x rq)
  then show ?case by (simp add: oversized_def unaudited_def)
next
  case (progress gw ts tr i t' gw')
  let ?t = "ts ! i" and ?st = "gw_inner gw0"
  from progress.prems have "\<forall>xrq \<in> set (map task_rq (ts[i := t'])). sink_works ?st (fst xrq)" by simp
  then have works: "\<forall>t \<in> set ts. sink_works ?st (fst (task_rq t))"
    unfolding map_task_rq_update [OF progress.hyps(2,3)] by simp
  from reach_config [OF progress.hyps(1)] progress.hyps(2)
  have conf: "same_config ?st (gw_inner gw)" and ok: "task_ok ?st ?t" by simp_all
  from works progress.hyps(2) have "sink_works ?st (fst (task_rq ?t))" by simp
  from emit_all_works [OF this, of "records_of ?t gw" "gw_audit gw"] advance_audit [of ?t gw] progress.hyps(3)
  have lines: "length (al_lines (gw_audit gw')) = length (al_lines (gw_audit gw)) + length (records_of ?t gw)"
    "al_errors (gw_audit gw') = al_errors (gw_audit gw)"
    by (simp_all add: same_config_audit [OF conf])
  note upd = length_filter_update [OF progress.hyps(2), unfolded of_bool_def [symmetric]]
  from progress.IH [OF works] advance_balance [OF progress.hyps(3) conf ok] lines
    upd [of "oversized ?st" t'] upd [of is_responded t'] upd [of "unaudited ?st" t']
  show ?case by simp
qed

section \<open>Main theorems\<close>

text \<open>
  C10. The log holds nothing but well-formed records: in every interleaving of requests, and whatever
  the sink does, the lines of the log are those that were there, followed by JSON lines of records of
  requests that arrived, each with the address of its peer and with just the fields that go with its
  outcome. A mutation is recorded under the scope write, and raw variables appear only if they are
  switched on.
\<close>

theorem runs_audit_typed:
  assumes "reach ck gw0 gw ts tr"
  shows "\<exists>new. al_lines (gw_audit gw) = al_lines (gw_audit gw0) @ new \<and>
    (\<forall>line \<in> set new. \<exists>x rq r. (x, rq) \<in> set (map task_rq ts) \<and> line = to_json_line (x_to_string x) r \<and>
       wf_record r \<and> ar_source_ip r = Some (rq_peer_ip rq) \<and>
       (in_log_variables (gw_inner gw0) \<or> ar_variables r = None))"
proof -
  from reach_lines [OF assms] obtain new where new: "al_lines (gw_audit gw) = al_lines (gw_audit gw0) @ new"
    "\<And>line. line \<in> set new \<Longrightarrow> \<exists>xrq \<in> set (map task_rq ts). line_of (gw_inner gw0) xrq line" by blast
  have "\<exists>x rq r. (x, rq) \<in> set (map task_rq ts) \<and> line = to_json_line (x_to_string x) r \<and>
       wf_record r \<and> ar_source_ip r = Some (rq_peer_ip rq) \<and>
       (in_log_variables (gw_inner gw0) \<or> ar_variables r = None)" if "line \<in> set new" for line
    using new(2) [OF that] unfolding line_of_def case_prod_beta by (metis prod.collapse)
  with new(1) show ?thesis by blast
qed

text \<open>
  C9. No answer without its line: in every interleaving of requests with a sink that works, there is
  at most one line for each answered request, none for one whose body could not be read, and one for
  every other, except for reads that were admitted while reads are not audited. No error is traced.
\<close>

theorem runs_audited:
  assumes "reach ck gw0 gw ts tr" and "\<forall>t \<in> set ts. sink_works (gw_inner gw0) (fst (task_rq t))"
    and "al_lines (gw_audit gw0) = []"
  shows "length (al_lines (gw_audit gw)) + length (filter (oversized (gw_inner gw0)) ts) \<le>
      length (filter is_responded ts) \<and>
    length (filter is_responded ts) \<le>
      length (al_lines (gw_audit gw)) + length (filter (oversized (gw_inner gw0)) ts) +
      length (filter (unaudited (gw_inner gw0)) ts) \<and>
    al_errors (gw_audit gw) = al_errors (gw_audit gw0)"
  using reach_balance [OF assms(1,2)] assms(3) by simp

text \<open>The run of one authorized mutation.\<close>

lemma ex_sink_works: "sink_works (gw_inner (ex_gateway True)) ex_ext"
  by (simp add: sink_works_def ex_gateway_def ex_inner_def ex_ext_def)

lemma ex_audited:
  "\<not> oversized (gw_inner (ex_gateway True)) (Responded ex_ext (ex_request ex_auth ''POST'' ''/'' ''forged'') resp)"
  "\<not> unaudited (gw_inner (ex_gateway True)) (Responded ex_ext (ex_request ex_auth ''POST'' ''/'' ''forged'') resp)"
proof -
  have g: "gw_inner (ex_gateway True) = ex_inner True" by (simp add: ex_gateway_def)
  from ex_decide_write have d: "x_to_bytes ex_ext (rq_body (ex_request ex_auth ''POST'' ''/'' ''forged'')) (in_body_limit (ex_inner True)) = Ok ''forged''"
    "classified ex_ext (ex_request ex_auth ''POST'' ''/'' ''forged'') (ex_inner True) ''forged'' = Ok ex_classification"
    by (simp_all add: decide_Forward_iff)
  show "\<not> oversized (gw_inner (ex_gateway True)) (Responded ex_ext (ex_request ex_auth ''POST'' ''/'' ''forged'') resp)"
    by (simp add: g oversized_def unreadable_def d)
  show "\<not> unaudited (gw_inner (ex_gateway True)) (Responded ex_ext (ex_request ex_auth ''POST'' ''/'' ''forged'') resp)"
    by (simp add: g unaudited_def quiet_read_def admitted_def d ex_classification_def)
qed

theorem runs_audited_witness:
  "length (al_lines (gw_audit (snd (handle ex_ext (ex_request ex_auth ''POST'' ''/'' ''forged'') (ex_gateway True))))) = 1"
  using runs_audited [OF ex_reach] ex_sink_works ex_audited
  by (simp add: ex_gateway_def)

theorem runs_audit_typed_witness:
  "\<exists>r. al_lines (gw_audit (snd (handle ex_ext (ex_request ex_auth ''POST'' ''/'' ''forged'') (ex_gateway True)))) =
     [to_json_line (x_to_string ex_ext) r] \<and> wf_record r \<and> ar_source_ip r = Some ''10.0.0.1'' \<and> ar_variables r = None"
proof -
  let ?gw = "snd (handle ex_ext (ex_request ex_auth ''POST'' ''/'' ''forged'') (ex_gateway True))"
  from runs_audit_typed [OF ex_reach] obtain new where new: "al_lines (gw_audit ?gw) = new"
    "\<forall>line \<in> set new. \<exists>r. line = to_json_line (x_to_string ex_ext) r \<and> wf_record r \<and>
       ar_source_ip r = Some ''10.0.0.1'' \<and> ar_variables r = None"
    by (auto simp: ex_gateway_def ex_inner_def ex_request_def)
  from reach_balance [OF ex_reach] ex_sink_works ex_audited new(1) have "length new = 1"
    by (simp add: ex_gateway_def)
  with new show ?thesis by (cases new) auto
qed

end
