(* ===== verification/Iga_Tls.thy ===== *)
theory Iga_Tls
  imports Iga_Pipeline
begin

text \<open>
  TLS termination (\<^verbatim>\<open>src/src/tls.rs\<close>): loading the server configuration, the identity of a
  client certificate, the requests of a connection and the accept loop.

  Parameters: reading a file, the PEM reader, the trust store, the verifier and the server
  configuration of \<^verbatim>\<open>rustls\<close> (bundled in \<open>tls_lib\<close>), and the X.509 parser, of which the view
  \<open>x509\<close> keeps what the source asks for: the common names of the subject, each as text if it is
  text, and the general names of the alternative-name extension if there is a readable one. An
  \<^verbatim>\<open>anyhow\<close> error is the list of its contexts, the outermost first.
\<close>

type_synonym any_error = "string list"

definition with_context :: "string \<Rightarrow> ('a, string) result \<Rightarrow> ('a, any_error) result" where
  "with_context msg r = map_err (\<lambda>e. [msg, e]) r"

definition context_some :: "string \<Rightarrow> 'a option \<Rightarrow> ('a, any_error) result" where
  "context_some msg m = ok_or m [msg]"

lemmas context_defs = with_context_def context_some_def

section \<open>Server configuration\<close>

record ('rs, 'v, 'sc) tls_lib =
  tl_read :: "string \<Rightarrow> (bytes, string) result"
  tl_pem_certs :: "bytes \<Rightarrow> (bytes, string) result list"
  tl_pem_key :: "bytes \<Rightarrow> (bytes option, string) result"
  tl_empty_store :: 'rs
  tl_add :: "'rs \<Rightarrow> bytes \<Rightarrow> ('rs, string) result"
  tl_protocol_versions :: "(unit, string) result"
  tl_build_verifier :: "'rs \<Rightarrow> ('v, string) result"
  tl_with_client_cert_verifier :: "'v \<Rightarrow> bytes list \<Rightarrow> bytes \<Rightarrow> ('sc, string) result"
  tl_with_no_client_auth :: "bytes list \<Rightarrow> bytes \<Rightarrow> ('sc, string) result"

definition load_certs :: "('rs, 'v, 'sc) tls_lib \<Rightarrow> string \<Rightarrow> (bytes list, any_error) result" where
  "load_certs lib path =
     and_then (with_context (''reading '' @ path) (tl_read lib path))
       (\<lambda>data. and_then
          (with_context (''parsing certificates from '' @ path) (map_result (\<lambda>r. r) (tl_pem_certs lib data)))
          (\<lambda>certs. if certs = [] then Err [''no certificates in '' @ path] else Ok certs))"

definition load_private_key :: "('rs, 'v, 'sc) tls_lib \<Rightarrow> string \<Rightarrow> (bytes, any_error) result" where
  "load_private_key lib path =
     and_then (with_context (''reading '' @ path) (tl_read lib path))
       (\<lambda>data. and_then (with_context (''parsing private key from '' @ path) (tl_pem_key lib data))
          (context_some (''no private key found in '' @ path)))"

fun add_roots :: "('rs, 'v, 'sc) tls_lib \<Rightarrow> string \<Rightarrow> bytes list \<Rightarrow> 'rs \<Rightarrow> ('rs, any_error) result" where
  "add_roots lib path [] roots = Ok roots"
| "add_roots lib path (cert # certs) roots =
     and_then (with_context (''adding CA from '' @ path @ '' to trust store'') (tl_add lib roots cert))
       (add_roots lib path certs)"

definition load_root_store :: "('rs, 'v, 'sc) tls_lib \<Rightarrow> string \<Rightarrow> ('rs, any_error) result" where
  "load_root_store lib path =
     and_then (load_certs lib path) (\<lambda>certs. add_roots lib path certs (tl_empty_store lib))"

definition load_server_config :: "('rs, 'v, 'sc) tls_lib \<Rightarrow> tls \<Rightarrow> ('sc, any_error) result" where
  "load_server_config lib t =
     and_then (context_some ''tls.enabled requires tls.cert'' (tls_cert t)) (\<lambda>cert_path.
     and_then (context_some ''tls.enabled requires tls.key'' (tls_key t)) (\<lambda>key_path.
     and_then (load_certs lib cert_path) (\<lambda>certs.
     and_then (load_private_key lib key_path) (\<lambda>key.
     and_then (with_context ''configuring TLS protocol versions'' (tl_protocol_versions lib)) (\<lambda>_.
       if tls_require_client_cert t then
         and_then (context_some ''require_client_cert requires tls.client_ca'' (tls_client_ca t)) (\<lambda>ca_path.
         and_then (load_root_store lib ca_path) (\<lambda>roots.
         and_then (with_context ''building client certificate verifier'' (tl_build_verifier lib roots)) (\<lambda>verifier.
           with_context ''loading server certificate/key''
             (tl_with_client_cert_verifier lib verifier certs key))))
       else
         with_context ''loading server certificate/key'' (tl_with_no_client_auth lib certs key))))))"

section \<open>Client identity\<close>

datatype general_name = DNSName string | RFC822Name string | URI string | OtherName

record x509 =
  xc_common_names :: "string option list"
  xc_alternative_names :: "general_name list option"

fun san_loop :: "general_name list \<Rightarrow> string list \<Rightarrow> string list" where
  "san_loop [] sans = sans"
| "san_loop (DNSName s # names) sans = san_loop names (sans @ [s])"
| "san_loop (RFC822Name s # names) sans = san_loop names (sans @ [s])"
| "san_loop (URI s # names) sans = san_loop names (sans @ [s])"
| "san_loop (OtherName # names) sans = san_loop names sans"

definition extract_identity :: "(bytes \<Rightarrow> x509 option) \<Rightarrow> bytes list \<Rightarrow> client_cert option" where
  "extract_identity from_der certs =
     (case certs of
        [] \<Rightarrow> None
      | leaf # _ \<Rightarrow>
          Option.bind (from_der leaf)
            (\<lambda>cert.
               Some \<lparr>cc_subject_cn =
                       (case xc_common_names cert of [] \<Rightarrow> None | attr # _ \<Rightarrow> attr),
                     cc_sans =
                       (case xc_alternative_names cert of
                          Some names \<Rightarrow> san_loop names []
                        | None \<Rightarrow> [])\<rparr>))"

section \<open>Connections\<close>

text \<open>
  A completed handshake shows the chain that the peer presented, if any. The requests that arrive on
  the connection carry no extensions of their own; the peer address and the identity are put into
  each before it goes to the router.
\<close>

definition inject :: "string \<Rightarrow> client_cert option \<Rightarrow> 'r request \<Rightarrow> 'r request" where
  "inject peer client_cert rq =
     (let rq1 = rq\<lparr>rq_peer_ip := peer\<rparr> in
      case client_cert of Some cert \<Rightarrow> rq1\<lparr>rq_client_cert := Some cert\<rparr> | None \<Rightarrow> rq1)"

definition serve_connection ::
  "(bytes \<Rightarrow> x509 option) \<Rightarrow> (bytes list option, string) result \<Rightarrow> string \<Rightarrow> 'r request list \<Rightarrow>
   'r request list" where
  "serve_connection from_der handshake peer incoming =
     (case handshake of
        Inl e \<Rightarrow> []
      | Inr peer_certificates \<Rightarrow>
          let client_cert = Option.bind peer_certificates (extract_identity from_der)
          in map (inject peer client_cert) incoming)"

text \<open>
  The accept loop, over the events that its selection sees; each accepted connection is spawned. The
  result is \<^term>\<open>None\<close> while the loop goes on.
\<close>

datatype 'c listen_event = Accepted 'c | AcceptFailed string | Shutdown

fun serve :: "'c listen_event list \<Rightarrow> 'c list \<Rightarrow> (unit, any_error) result option \<times> 'c list" where
  "serve [] spawned = (None, spawned)"
| "serve (Accepted c # events) spawned = serve events (spawned @ [c])"
| "serve (AcceptFailed e # events) spawned = (Some (Err [''accepting TCP connection'', e]), spawned)"
| "serve (Shutdown # events) spawned = (Some (Ok ()), spawned)"

section \<open>Lemmas\<close>

lemma load_certs_Ok_iff:
  "load_certs lib path = Ok certs \<longleftrightarrow>
     certs \<noteq> [] \<and> (\<exists>data. tl_read lib path = Ok data \<and> tl_pem_certs lib data = map Ok certs)"
proof -
  have "list_all2 (\<lambda>r c. r = Ok c) rs certs \<longleftrightarrow> rs = map Ok certs" for rs :: "(bytes, string) result list"
    by (auto simp: list_all2_conv_all_nth intro!: nth_equalityI)
  then show ?thesis
    by (auto simp: load_certs_def context_defs result_simps split: if_splits)
qed

lemma add_roots_Ok_iff:
  "add_roots lib path certs roots = Ok roots' \<longleftrightarrow>
     (case certs of
        [] \<Rightarrow> roots' = roots
      | c # cs \<Rightarrow> \<exists>r. tl_add lib roots c = Ok r \<and> add_roots lib path cs r = Ok roots')"
  by (cases certs) (auto simp: context_defs result_simps)

text \<open>The text of a general name that counts as a subject.\<close>

fun name_text :: "general_name \<Rightarrow> string option" where
  "name_text (DNSName s) = Some s"
| "name_text (RFC822Name s) = Some s"
| "name_text (URI s) = Some s"
| "name_text OtherName = None"

lemma san_loop_eq: "san_loop names sans = sans @ List.map_filter name_text names"
proof (induction names arbitrary: sans)
  case Nil
  then show ?case by (simp add: map_filter_simps)
next
  case (Cons n names)
  then show ?case by (cases n) (simp_all add: map_filter_simps)
qed

lemma set_map_filter: "set (List.map_filter f xs) = {y. \<exists>x \<in> set xs. f x = Some y}"
  by (force simp: map_filter_def)

text \<open>The subjects a certificate stands for: its first common name and its alternative names.\<close>

definition cert_subject :: "x509 \<Rightarrow> string \<Rightarrow> bool" where
  "cert_subject cert subject \<longleftrightarrow>
     (\<exists>cns. xc_common_names cert = Some subject # cns) \<or>
     (\<exists>names. xc_alternative_names cert = Some names \<and> Some subject \<in> name_text ` set names)"

lemma identity_matches:
  "cert_matches
      \<lparr>cc_subject_cn = (case xc_common_names cert of [] \<Rightarrow> None | attr # _ \<Rightarrow> attr),
       cc_sans = (case xc_alternative_names cert of Some names \<Rightarrow> san_loop names [] | None \<Rightarrow> [])\<rparr> =
   (\<lambda>mp. cert_subject cert (mp_subject mp))"
  by (rule ext)
    (auto simp: cert_subject_def cert_matches_iff san_loop_eq set_map_filter image_iff split: list.split option.split; metis)

lemma extract_identity_Some:
  assumes "extract_identity from_der certs = Some cc"
  obtains leaf chain cert where "certs = leaf # chain" "from_der leaf = Some cert"
    "cert_matches cc = (\<lambda>mp. cert_subject cert (mp_subject mp))"
proof (cases certs)
  case Nil
  with assms show ?thesis by (simp add: extract_identity_def)
next
  case (Cons leaf chain)
  with assms obtain cert where "from_der leaf = Some cert"
    "cc = \<lparr>cc_subject_cn = (case xc_common_names cert of [] \<Rightarrow> None | attr # _ \<Rightarrow> attr),
       cc_sans = (case xc_alternative_names cert of Some names \<Rightarrow> san_loop names [] | None \<Rightarrow> [])\<rparr>"
    by (auto simp: extract_identity_def bind_eq_Some_conv)
  with Cons that show ?thesis by (simp add: identity_matches)
qed

text \<open>
  What an accept loop promises, this one and that of the HTTP framework: it serves only connections
  that were accepted.
\<close>

locale accept_loop =
  fixes loop :: "'c listen_event list \<Rightarrow> 'e option \<times> 'c list"
  assumes serves_accepted: "set (snd (loop events)) \<subseteq> {c. Accepted c \<in> set events}"

lemma serve_accepted: "set (snd (serve events spawned)) \<subseteq> set spawned \<union> {c. Accepted c \<in> set events}"
  by (induction events spawned rule: serve.induct) auto

interpretation tls_loop: accept_loop "\<lambda>events. serve events []"
  by unfold_locales (use serve_accepted [where spawned = "[]"] in simp)

lemma serve_prefix:
  "serve (map Accepted cs @ events) spawned = serve events (spawned @ cs)"
  by (induction cs arbitrary: spawned) simp_all

lemma serve_cases:
  "serve events spawned = (result, conns) \<longleftrightarrow>
     (\<exists>cs rest. events = map Accepted cs @ rest \<and> conns = spawned @ cs \<and>
        (rest = [] \<and> result = None \<or>
         (\<exists>later. rest = Shutdown # later \<and> result = Some (Ok ())) \<or>
         (\<exists>e later. rest = AcceptFailed e # later \<and>
            result = Some (Err [''accepting TCP connection'', e]))))"
  (is "?L \<longleftrightarrow> ?R spawned events")
proof
  show "?L \<Longrightarrow> ?R spawned events"
  proof (induction events spawned rule: serve.induct)
    case (2 c events spawned)
    then have "serve events (spawned @ [c]) = (result, conns)" by simp
    from "2.IH" [OF this] obtain cs rest where "events = map Accepted cs @ rest"
      "conns = (spawned @ [c]) @ cs"
      "rest = [] \<and> result = None \<or> (\<exists>later. rest = Shutdown # later \<and> result = Some (Ok ())) \<or>
       (\<exists>e later. rest = AcceptFailed e # later \<and> result = Some (Err [''accepting TCP connection'', e]))"
      by blast
    then show ?case by (intro exI [of _ "c # cs"] exI [of _ rest]) auto
  qed auto
  show "?R spawned events \<Longrightarrow> ?L"
    using serve_prefix [where events = "[]"] by (auto simp: serve_prefix)
qed

lemma add_roots_contents:
  assumes "\<And>r c r'. tl_add lib r c = Ok r' \<Longrightarrow> contents r' = insert c (contents r)"
  shows "add_roots lib path certs roots = Ok roots' \<Longrightarrow> contents roots' = set certs \<union> contents roots"
proof (induction certs arbitrary: roots)
  case Nil
  then show ?case by simp
next
  case (Cons c certs)
  then obtain r where "tl_add lib roots c = Ok r" "add_roots lib path certs r = Ok roots'"
    by (auto simp: context_defs result_simps)
  with Cons.IH assms show ?case by auto
qed

lemma inject_identity:
  "rq_client_cert rq = None \<Longrightarrow> rq_client_cert (inject peer cc rq) = cc"
  "rq_headers (inject peer cc rq) = rq_headers rq"
  by (simp_all add: inject_def Let_def split: option.split)

section \<open>Main theorems\<close>

text \<open>
  C26. No silent fallback to anonymous TLS: if client certificates are required, every server
  configuration that loads demands them, and verifies them against a trust store that holds exactly
  the certificates of the configured bundle, of which there is at least one. The hypothesis on the
  trust store is its documented behaviour: it starts empty, and adding puts one certificate in.
\<close>

theorem client_certs_enforced:
  assumes "tls_require_client_cert t" and "load_server_config lib t = Ok sc"
    and "\<And>r c r'. tl_add lib r c = Ok r' \<Longrightarrow> contents r' = insert c (contents r)"
    and "contents (tl_empty_store lib) = {}"
  shows "\<exists>ca cas roots verifier certs key.
    tls_client_ca t = Some ca \<and> load_certs lib ca = Ok cas \<and> cas \<noteq> [] \<and>
    contents roots = set cas \<and> tl_build_verifier lib roots = Ok verifier \<and>
    tl_with_client_cert_verifier lib verifier certs key = Ok sc"
proof -
  from assms(1,2) obtain certs key ca roots verifier where ca: "tls_client_ca t = Some ca"
    and roots: "load_root_store lib ca = Ok roots"
    and v: "tl_build_verifier lib roots = Ok verifier"
    and sc: "tl_with_client_cert_verifier lib verifier certs key = Ok sc"
    by (auto simp: load_server_config_def context_defs result_simps)
  from roots obtain cas where b: "load_certs lib ca = Ok cas"
    and add: "add_roots lib ca cas (tl_empty_store lib) = Ok roots"
    by (auto simp: load_root_store_def result_simps)
  from add_roots_contents [where contents = contents, OF assms(3) add] assms(4) have "contents roots = set cas" by simp
  with ca b v sc load_certs_Ok_iff [of lib ca cas] show ?thesis by blast
qed

definition ex_tls :: tls where
  "ex_tls =
     \<lparr>tls_enabled = True, tls_cert = Some ''c.pem'', tls_key = Some ''k.pem'',
      tls_require_client_cert = True, tls_client_ca = Some ''ca.pem''\<rparr>"

definition ex_tls_lib :: "(bytes list, bytes list, bytes list) tls_lib" where
  "ex_tls_lib =
     \<lparr>tl_read = Ok, tl_pem_certs = (\<lambda>data. [Ok data]), tl_pem_key = (\<lambda>data. Ok (Some data)),
      tl_empty_store = [], tl_add = (\<lambda>r c. Ok (c # r)), tl_protocol_versions = Ok (),
      tl_build_verifier = Ok, tl_with_client_cert_verifier = (\<lambda>v certs key. Ok v),
      tl_with_no_client_auth = (\<lambda>certs key. Ok [])\<rparr>"

theorem client_certs_enforced_witness:
  "\<exists>ca cas roots verifier certs key.
    tls_client_ca ex_tls = Some ca \<and> load_certs ex_tls_lib ca = Ok cas \<and> cas \<noteq> [] \<and>
    set roots = set cas \<and> tl_build_verifier ex_tls_lib roots = Ok verifier \<and>
    tl_with_client_cert_verifier ex_tls_lib verifier certs key = Ok [''ca.pem'']"
proof (rule client_certs_enforced [where t = ex_tls and lib = ex_tls_lib and contents = set])
  show "load_server_config ex_tls_lib ex_tls = Ok [''ca.pem'']"
    by (simp add: load_server_config_def load_certs_def load_private_key_def load_root_store_def
      context_defs ex_tls_def ex_tls_lib_def)
qed (auto simp: ex_tls_def ex_tls_lib_def)

text \<open>
  C27. With the certificate backend, the principal of every request on a connection is determined by
  the leaf certificate alone: the first configured mapping whose subject is the first common name of
  the leaf or one of its DNS, mail or URI names. Neither a header nor the rest of the chain matters.
  A leaf that cannot be parsed counts as no certificate at all, and so is anonymous where anonymous
  reads are enabled.
\<close>

theorem mtls_principal_from_leaf:
  assumes "in_authenticator st = AuthMtls m" and "rq_client_cert rq = None"
    and "rq' \<in> set (serve_connection from_der (Ok (Some (leaf # chain))) peer [rq])"
  shows "verdict x rq' st =
    (case from_der leaf of
       None \<Rightarrow> if in_allow_anonymous_read st then Ok anonymous else Err MissingCredentials
     | Some cert \<Rightarrow>
         (case find (\<lambda>mp. cert_subject cert (mp_subject mp)) (mb_mappings m) of
            None \<Rightarrow> Err InvalidClientCert
          | Some mp \<Rightarrow> Ok (principal_new (mp_name mp) (mp_scopes mp))))"
proof -
  let ?cc = "extract_identity from_der (leaf # chain)"
  from assms(3) have rq': "rq' = inject peer ?cc rq" by (simp add: serve_connection_def)
  have scan: "mtls_scan cc ms =
      (case find (cert_matches cc) ms of None \<Rightarrow> Err InvalidClientCert
       | Some mp \<Rightarrow> Ok (principal_new (mp_name mp) (mp_scopes mp)))" for cc ms
    by (induction ms) simp_all
  have v: "verdict x rq' st =
      (case ?cc of None \<Rightarrow> if in_allow_anonymous_read st then Ok anonymous else Err MissingCredentials
       | Some cc \<Rightarrow> mtls_verify m cc)"
    unfolding verdict_def authenticate_def
    by (simp add: assms(1) rq' inject_identity(1) [OF assms(2)] mtls.fallback_eq split: option.split)
  show ?thesis
    unfolding v extract_identity_def mtls_verify_def scan
    by (cases "from_der leaf") (simp_all only: list.case Option.bind.simps option.case identity_matches)
qed

theorem mtls_principal_from_leaf_witness:
  "verdict ex_ext
     (hd (serve_connection (\<lambda>_. Some \<lparr>xc_common_names = [Some ''ci''], xc_alternative_names = None\<rparr>)
       (Ok (Some [''der''])) ''10.0.0.2'' [ex_request ex_auth ''POST'' ''/'' ''b'']))
     ((ex_inner True)\<lparr>in_authenticator :=
        AuthMtls \<lparr>mb_mappings = [\<lparr>mp_subject = ''ci'', mp_name = ''bot'', mp_scopes = [''read'']\<rparr>]\<rparr>\<rparr>) =
   Ok (principal_new ''bot'' [''read''])"
proof -
  let ?der = "\<lambda>_ :: bytes. Some \<lparr>xc_common_names = [Some ''ci''], xc_alternative_names = None\<rparr>"
  let ?rq = "ex_request ex_auth ''POST'' ''/'' ''b''"
  have "hd (serve_connection ?der (Ok (Some [''der''])) ''10.0.0.2'' [?rq]) \<in>
      set (serve_connection ?der (Ok (Some [''der''])) ''10.0.0.2'' [?rq])"
    by (simp add: serve_connection_def)
  from mtls_principal_from_leaf [OF _ _ this,
    where st = "(ex_inner True)\<lparr>in_authenticator :=
        AuthMtls \<lparr>mb_mappings = [\<lparr>mp_subject = ''ci'', mp_name = ''bot'', mp_scopes = [''read'']\<rparr>]\<rparr>\<rparr>"
      and m = "\<lparr>mb_mappings = [\<lparr>mp_subject = ''ci'', mp_name = ''bot'', mp_scopes = [''read'']\<rparr>]\<rparr>" and x = ex_ext]
  show ?thesis by (simp add: ex_request_def cert_subject_def)
qed

end
