(* ===== verification/Iga_Main.thy ===== *)
theory Iga_Main
  imports Iga_Tls
begin

text \<open>
  The entry point (\<^verbatim>\<open>src/src/main.rs\<close>): the command line, the choice of the authenticator, and
  the whole of \<^verbatim>\<open>main\<close>: the start-up sequence up to the point where requests are served, the
  serving until the process ends, and the result it ends with.

  Parameters, bundled in \<open>startup_ext\<close>: the log filter of the environment, the arguments after the
  program name, reading the configuration file, the TOML parser and the environment, installing the
  metrics recorder, building the HTTP client, fetching and parsing a key set and building keys, the
  rate limiter's constructors, binding the listening socket, and the TLS library. The accept loop of
  the HTTP framework, which serves without TLS, is the parameter \<open>axum_serve\<close>.
\<close>

section \<open>Logger and command line\<close>

text \<open>A log filter is represented by its directives.\<close>

definition env_filter :: "(string, string) result \<Rightarrow> string" where
  "env_filter try_from_default_env =
     (case try_from_default_env of Inr directives \<Rightarrow> directives | Inl _ \<Rightarrow> ''info'')"

fun parse_config_path :: "string list \<Rightarrow> string" where
  "parse_config_path [] = ''config.toml''"
| "parse_config_path (arg # args) =
     (if arg = ''--config'' \<or> arg = ''-c'' then
        (case args of path # _ \<Rightarrow> path | [] \<Rightarrow> parse_config_path args)
      else parse_config_path args)"

section \<open>Authenticator\<close>

definition build_authenticator ::
  "(bytes \<Rightarrow> 'k) \<Rightarrow> ('j jwk \<Rightarrow> ('k, string) result) \<Rightarrow> (string \<Rightarrow> ('h, string) result) \<Rightarrow>
   ('h \<Rightarrow> ('j jwk list, string) result) \<Rightarrow> config \<Rightarrow> ('k authenticator, any_error) result" where
  "build_authenticator from_secret from_jwk get parse config =
     (let fallback = map_err (\<lambda>e. [''authenticator: '' @ auth_error_display e])
            (authenticator_from_config from_secret (cf_auth config))
      in if au_mode (cf_auth config) = ModeJwt then
           (case au_jwt (cf_auth config) of
              Some jwt \<Rightarrow>
                if jc_hs256_secret jwt = None then
                  and_then (context_some ''JWT mode requires either hs256_secret or jwks_url'' (jc_jwks_url jwt))
                    (\<lambda>url. and_then (map_err (\<lambda>e. [auth_error_display e]) (fetch_jwks get parse url))
                       (\<lambda>set_keys. map_ok AuthJwt
                          (map_err (\<lambda>e. [auth_error_display e]) (jwt_from_jwks from_jwk jwt set_keys))))
                else fallback
            | None \<Rightarrow> fallback)
         else fallback)"

section \<open>Start-up\<close>

record ('k, 'j, 'h, 'q, 'l, 'rs, 'v, 'sc, 'm) startup_ext =
  su_env_filter :: "(string, string) result"
  su_args :: "string list"
  su_read :: "string \<Rightarrow> (string, string) result"
  su_toml :: "string \<Rightarrow> (config, string) result"
  su_env :: "string \<Rightarrow> string option"
  su_install :: "('m, string) result"
  su_client :: "(unit, string) result"
  su_from_secret :: "bytes \<Rightarrow> 'k"
  su_from_jwk :: "'j jwk \<Rightarrow> ('k, string) result"
  su_get :: "string \<Rightarrow> ('h, string) result"
  su_parse :: "'h \<Rightarrow> ('j jwk list, string) result"
  su_quota_new :: "u32 \<Rightarrow> nat \<Rightarrow> 'q option"
  su_keyed :: "'q \<Rightarrow> 'l"
  su_bind :: "string \<Rightarrow> (unit, string) result"
  su_tls :: "('rs, 'v, 'sc) tls_lib"

text \<open>What is done before requests are served, in order, and the server that then runs.\<close>

datatype startup_event =
    LoggerInit string
  | MetricsSpawned string
  | ListenerBound string
  | ListeningTls string bool
  | ListeningPlain string

record ('k, 'l, 'sc) server =
  sv_listen :: string
  sv_tls :: "'sc option"
  sv_inner :: "('k, 'l) inner"

definition build_state ::
  "('k, 'j, 'h, 'q, 'l, 'rs, 'v, 'sc, 'm) startup_ext \<Rightarrow> config \<Rightarrow> 'k authenticator \<Rightarrow> ('k, 'l) inner" where
  "build_state su config auth =
     app_state_new (su_quota_new su) (su_keyed su) config auth (proxy_new (cf_upstream config)) Stdout
       app_options_default"

definition open_listener ::
  "('k, 'j, 'h, 'q, 'l, 'rs, 'v, 'sc, 'm) startup_ext \<Rightarrow> config \<Rightarrow> ('k, 'l) inner \<Rightarrow> startup_event list \<Rightarrow>
   (('k, 'l, 'sc) server, any_error) result \<times> startup_event list" where
  "open_listener su config st events =
     (case with_context (''binding listener on '' @ cf_listen config) (su_bind su (cf_listen config)) of
        Inl e \<Rightarrow> (Err e, events)
      | Inr _ \<Rightarrow>
          let events = events @ [ListenerBound (cf_listen config)] in
          if tls_enabled (cf_tls config) then
            (case load_server_config (su_tls su) (cf_tls config) of
               Inl e \<Rightarrow> (Err (''loading TLS configuration'' # e), events)
             | Inr sc \<Rightarrow>
                 (Ok \<lparr>sv_listen = cf_listen config, sv_tls = Some sc, sv_inner = st\<rparr>,
                  events @ [ListeningTls (cf_listen config) (tls_require_client_cert (cf_tls config))]))
          else
            (Ok \<lparr>sv_listen = cf_listen config, sv_tls = None, sv_inner = st\<rparr>,
             events @ [ListeningPlain (cf_listen config)]))"

definition start ::
  "('k, 'j, 'h, 'q, 'l, 'rs, 'v, 'sc, 'm) startup_ext \<Rightarrow>
   (('k, 'l, 'sc) server, any_error) result \<times> startup_event list" where
  "start su =
     (let config_path = parse_config_path (su_args su);
          events = [LoggerInit (env_filter (su_env_filter su))] in
      case config_load (su_read su) (su_toml su) (su_env su) config_path of
        Inl e \<Rightarrow> (Err [''loading config from '' @ config_path, config_error_display e], events)
      | Inr config \<Rightarrow>
          case install_recorder (su_install su) of
            Inl e \<Rightarrow> (Err [e], events)
          | Inr _ \<Rightarrow>
              let events = events @ [MetricsSpawned (cf_metrics config)] in
              case with_context ''building HTTP client'' (su_client su) of
                Inl e \<Rightarrow> (Err e, events)
              | Inr _ \<Rightarrow>
                  case build_authenticator (su_from_secret su) (su_from_jwk su) (su_get su) (su_parse su) config of
                    Inl e \<Rightarrow> (Err e, events)
                  | Inr auth \<Rightarrow> open_listener su config (build_state su config auth) events)"

text \<open>The spawned metrics server: its failure is traced and does not reach \<^verbatim>\<open>main\<close>.\<close>

definition metrics_task ::
  "(string \<Rightarrow> (unit, string) result) \<Rightarrow> ((string \<Rightarrow> string \<Rightarrow> 'resp) \<Rightarrow> (unit, string) result) \<Rightarrow>
   (string \<Rightarrow> string \<Rightarrow> 'resp) \<Rightarrow> string \<Rightarrow> string list" where
  "metrics_task bind run app addr =
     (case metrics_serve bind run app addr of
        Inl e \<Rightarrow> [''metrics server stopped: '' @ e]
      | Inr _ \<Rightarrow> [])"

section \<open>Serving\<close>

text \<open>
  What the serving process meets, in order: a connection, an accept that fails, the completion of
  the wait for the interrupt signal. The result of that wait is discarded, so that a handler that
  could not be installed ends it just as the signal does.
\<close>

datatype 'c world_event = Connection 'c | AcceptError string | CtrlC "(unit, string) result"

definition shutdown_signal :: "(unit, string) result \<Rightarrow> 'c listen_event" where
  "shutdown_signal ctrl_c = Shutdown"

fun listen_event_of :: "'c world_event \<Rightarrow> 'c listen_event" where
  "listen_event_of (Connection c) = Accepted c"
| "listen_event_of (AcceptError e) = AcceptFailed e"
| "listen_event_of (CtrlC ctrl_c) = shutdown_signal ctrl_c"

definition run_server ::
  "('c listen_event list \<Rightarrow> (unit, string) result option \<times> 'c list) \<Rightarrow> ('k, 'l, 'sc) server \<Rightarrow>
   'c world_event list \<Rightarrow> (unit, any_error) result option \<times> 'c list" where
  "run_server axum_serve sv world =
     (case sv_tls sv of
        Some _ \<Rightarrow>
          let (result, conns) = serve (map listen_event_of world) []
          in (map_option (map_err (\<lambda>e. ''TLS server error'' # e)) result, conns)
      | None \<Rightarrow>
          let (result, conns) = axum_serve (map listen_event_of world)
          in (map_option (with_context ''server error'') result, conns))"

text \<open>The result is \<^term>\<open>None\<close> while the process runs; the connections are those served so far.\<close>

definition main ::
  "('k, 'j, 'h, 'q, 'l, 'rs, 'v, 'sc, 'm) startup_ext \<Rightarrow>
   ('c listen_event list \<Rightarrow> (unit, string) result option \<times> 'c list) \<Rightarrow> 'c world_event list \<Rightarrow>
   (unit, any_error) result option \<times> 'c list" where
  "main su axum_serve world =
     (case fst (start su) of
        Inl e \<Rightarrow> (Some (Err e), [])
      | Inr sv \<Rightarrow> run_server axum_serve sv world)"

section \<open>Lemmas\<close>

text \<open>The path is the argument after the first flag, if there is one.\<close>

lemma parse_config_path_exact:
  "parse_config_path args =
     (case dropWhile (\<lambda>a. a \<noteq> ''--config'' \<and> a \<noteq> ''-c'') args of
        flag # path # _ \<Rightarrow> path
      | _ \<Rightarrow> ''config.toml'')"
proof (induction args)
  case Nil
  then show ?case by simp
next
  case (Cons a args)
  then show ?case by (cases args) auto
qed

lemma jwt_from_config_Ok:
  "jwt_from_config from_secret cfg = Ok b \<longleftrightarrow>
     (\<exists>secret. jc_hs256_secret cfg = Some secret \<and>
        b = \<lparr>jb_keys = [from_secret secret], jb_validation = build_validation cfg HS256,
             jb_scopes_claim = jc_scopes_claim cfg\<rparr>)"
  by (auto simp: jwt_from_config_def result_simps)

lemma jwks_scan_keys:
  "jwks_scan from_jwk js keys alg = Ok (ks, a) \<Longrightarrow> length ks = length keys + length js"
  by (auto simp: jwks_scan_Ok dest: list_all2_lengthD)

lemma jwt_from_jwks_Ok:
  assumes "jwt_from_jwks from_jwk cfg set_keys = Ok b"
  shows "\<exists>alg. jb_keys b \<noteq> [] \<and> jb_validation b = build_validation cfg alg"
proof -
  from assms obtain ks alg where k: "keys_from_jwks from_jwk set_keys = Ok (ks, alg)"
    and b: "b = jwt_with_keys cfg ks alg"
    by (auto simp: jwt_from_jwks_def result_simps)
  from k have "set_keys \<noteq> []" "jwks_scan from_jwk set_keys [] None = Ok (ks, Some alg)"
    by (auto simp: keys_from_jwks_def result_simps split: if_splits)
  with jwks_scan_keys have "ks \<noteq> []" by fastforce
  with b show ?thesis by (auto simp: jwt_with_keys_def)
qed

lemma start_built:
  assumes "start su = (Ok sv, events)"
  obtains config auth where
    "config_load (su_read su) (su_toml su) (su_env su) (parse_config_path (su_args su)) = Ok config"
    "build_authenticator (su_from_secret su) (su_from_jwk su) (su_get su) (su_parse su) config = Ok auth"
    "sv_inner sv = build_state su config auth" "sv_listen sv = cf_listen config"
    "su_bind su (cf_listen config) = Ok ()"
    "if tls_enabled (cf_tls config)
      then \<exists>sc. load_server_config (su_tls su) (cf_tls config) = Ok sc \<and> sv_tls sv = Some sc else sv_tls sv = None"
    "take 3 events = [LoggerInit (env_filter (su_env_filter su)), MetricsSpawned (cf_metrics config),
      ListenerBound (cf_listen config)]"
proof -
  from assms obtain config auth where
    1: "config_load (su_read su) (su_toml su) (su_env su) (parse_config_path (su_args su)) = Ok config"
    and 2: "build_authenticator (su_from_secret su) (su_from_jwk su) (su_get su) (su_parse su) config = Ok auth"
    and 3: "open_listener su config (build_state su config auth)
      [LoggerInit (env_filter (su_env_filter su)), MetricsSpawned (cf_metrics config)] = (Ok sv, events)"
    unfolding start_def Let_def by (auto split: sum.splits)
  from 3 have "sv_inner sv = build_state su config auth" "sv_listen sv = cf_listen config"
    "su_bind su (cf_listen config) = Ok ()"
    "if tls_enabled (cf_tls config)
      then \<exists>sc. load_server_config (su_tls su) (cf_tls config) = Ok sc \<and> sv_tls sv = Some sc else sv_tls sv = None"
    "take 3 events = [LoggerInit (env_filter (su_env_filter su)), MetricsSpawned (cf_metrics config),
      ListenerBound (cf_listen config)]"
    by (auto simp: open_listener_def with_context_def Let_def map_err_def split: sum.splits if_splits)
  with 1 2 that show ?thesis by blast
qed

lemma build_state_fields:
  "in_authenticator (build_state su config auth) = auth"
  "in_policy (build_state su config auth) = cf_policy config"
  "in_proxy (build_state su config auth) = proxy_new (cf_upstream config)"
  "in_allow_anonymous_read (build_state su config auth) = au_allow_anonymous_read (cf_auth config)"
  "in_fail_closed_on_parse_error (build_state su config auth) = po_fail_closed_on_parse_error (cf_policy config)"
  "in_rate_limiters (build_state su config auth) = rate_limiters_new (su_quota_new su) (su_keyed su)
     (rl_read_per_minute (cf_ratelimit config)) (rl_write_per_minute (cf_ratelimit config))"
  "\<not> in_log_variables (build_state su config auth)" "\<not> in_audit_reads (build_state su config auth)"
  "in_body_limit (build_state su config auth) = 1024 * 1024" "in_audit (build_state su config auth) = Stdout"
  by (simp_all add: build_state_def app_state_new_def app_options_default_def)

text \<open>The accept loop over what the process meets.\<close>

lemma listen_events_split:
  "map listen_event_of world = map Accepted cs @ ev # later \<longleftrightarrow>
     (\<exists>w rest. world = map Connection cs @ w # rest \<and> ev = listen_event_of w \<and> later = map listen_event_of rest)"
proof (induction cs arbitrary: world)
  case Nil
  then show ?case by (cases world) auto
next
  case (Cons c cs)
  then show ?case
  proof (cases world)
    case (Cons w world')
    then show ?thesis using Cons.IH [of world'] by (cases w) (auto simp: shutdown_signal_def)
  qed simp
qed

lemma listen_event_of_iff:
  "listen_event_of w = Shutdown \<longleftrightarrow> (\<exists>r. w = CtrlC r)"
  "listen_event_of w = AcceptFailed e \<longleftrightarrow> w = AcceptError e"
  by (cases w; auto simp: shutdown_signal_def)+

lemma serve_ends:
  "serve (map listen_event_of world) [] = (Some r, conns) \<longleftrightarrow>
     (\<exists>w rest. world = map Connection conns @ w # rest \<and>
        ((\<exists>i. w = CtrlC i) \<and> r = Ok () \<or>
         (\<exists>e. w = AcceptError e \<and> r = Err [''accepting TCP connection'', e])))"
proof -
  have "serve (map listen_event_of world) [] = (Some r, conns) \<longleftrightarrow>
      (\<exists>ev later. map listen_event_of world = map Accepted conns @ ev # later \<and>
         (ev = Shutdown \<and> r = Ok () \<or> (\<exists>e. ev = AcceptFailed e \<and> r = Err [''accepting TCP connection'', e])))"
    unfolding serve_cases by auto
  also have "\<dots> \<longleftrightarrow> (\<exists>w rest. world = map Connection conns @ w # rest \<and>
      (listen_event_of w = Shutdown \<and> r = Ok () \<or>
       (\<exists>e. listen_event_of w = AcceptFailed e \<and> r = Err [''accepting TCP connection'', e])))"
    unfolding listen_events_split by blast
  finally show ?thesis unfolding listen_event_of_iff .
qed

section \<open>Main theorems\<close>

text \<open>
  C31. How the process ends. It ends with the error of the start-up if that fails, without serving
  anyone. Otherwise, over TLS, it serves every connection in the order of arrival and ends at the
  first event that is not a connection: regularly when the wait for the interrupt signal is over,
  even if that wait failed, and with an error, in its context, when an accept fails. Nothing that
  happens on a connection ends it. Without TLS it ends as the HTTP framework does, with the
  framework's error in its context.
\<close>

theorem main_exits:
  "main su axum_serve world = (Some r, conns) \<longleftrightarrow>
     (case fst (start su) of
        Inl e \<Rightarrow> r = Err e \<and> conns = []
      | Inr sv \<Rightarrow>
          if sv_tls sv = None
          then \<exists>q. axum_serve (map listen_event_of world) = (Some q, conns) \<and> r = with_context ''server error'' q
          else \<exists>w rest. world = map Connection conns @ w # rest \<and>
            ((\<exists>i. w = CtrlC i) \<and> r = Ok () \<or>
             (\<exists>e. w = AcceptError e \<and> r = Err [''TLS server error'', ''accepting TCP connection'', e])))"
proof (cases "fst (start su)")
  case (Inl e)
  then show ?thesis by (auto simp: main_def)
next
  case (Inr sv)
  show ?thesis
  proof (cases "sv_tls sv")
    case None
    with Inr show ?thesis by (auto simp: main_def run_server_def case_prod_beta prod_eq_iff)
  next
    case (Some sc)
    have "main su axum_serve world = (Some r, conns) \<longleftrightarrow>
        (\<exists>q. serve (map listen_event_of world) [] = (Some q, conns) \<and> r = map_err (\<lambda>e. ''TLS server error'' # e) q)"
      using Inr Some by (auto simp: main_def run_server_def case_prod_beta prod_eq_iff)
    with Inr Some show ?thesis unfolding serve_ends by (auto simp: map_err_def)
  qed
qed

text \<open>
  C29. The authenticator that start-up builds is the one the configuration asks for. In JWT mode it
  has at least one key and always checks the configured issuer, the configured audience and the
  not-before time; a shared secret, where there is one, is its only key and goes with HS256 only.
\<close>

theorem build_authenticator_sound:
  assumes "build_authenticator from_secret from_jwk get parse config = Ok auth"
  shows "case au_mode (cf_auth config) of
      ModeBearer \<Rightarrow> auth = AuthBearer (static_token_new (au_tokens (cf_auth config)))
    | ModeMtls \<Rightarrow> auth = AuthMtls (mtls_new (au_mtls (cf_auth config)))
    | ModeJwt \<Rightarrow> \<exists>jwt b. au_jwt (cf_auth config) = Some jwt \<and> auth = AuthJwt b \<and> jb_keys b \<noteq> [] \<and>
        va_issuer (jb_validation b) = [jc_issuer jwt] \<and> va_audience (jb_validation b) = [jc_audience jwt] \<and>
        va_validate_nbf (jb_validation b) \<and>
        (\<forall>secret. jc_hs256_secret jwt = Some secret \<longrightarrow>
           jb_keys b = [from_secret secret] \<and> va_algorithm (jb_validation b) = HS256)"
proof (cases "au_mode (cf_auth config)")
  case ModeJwt
  show ?thesis
  proof (cases "\<exists>jwt. au_jwt (cf_auth config) = Some jwt \<and> jc_hs256_secret jwt = None")
    case True
    with assms ModeJwt obtain jwt set_keys b where "au_jwt (cf_auth config) = Some jwt"
      "jc_hs256_secret jwt = None" "jwt_from_jwks from_jwk jwt set_keys = Ok b" "auth = AuthJwt b"
      by (auto simp: build_authenticator_def Let_def result_simps)
    with jwt_from_jwks_Ok [of from_jwk jwt set_keys b] ModeJwt show ?thesis
      by (auto simp: build_validation_def)
  next
    case False
    with assms ModeJwt have "authenticator_from_config from_secret (cf_auth config) = Ok auth"
      by (auto simp: build_authenticator_def Let_def result_simps split: option.splits if_splits)
    with ModeJwt show ?thesis
      by (auto simp: authenticator_from_config_def result_simps jwt_from_config_Ok build_validation_def)
  qed
qed (use assms in \<open>auto simp: build_authenticator_def authenticator_from_config_def result_simps\<close>)

text \<open>
  C30. A start-up that succeeds has resolved the configuration it was pointed to, built the
  authenticator from it, bound the configured address, and serves with the configured policy and
  limits: over TLS exactly if TLS is enabled, and then with the server configuration loaded from the
  TLS section. Whatever the configuration, successful reads are not audited, raw variables are never
  logged, the body limit is one mebibyte and audit records go
  to the standard output. The logger is set up first, by default
  with the filter \<^verbatim>\<open>info\<close>, and the metrics endpoint is up before the listener is bound.
\<close>

theorem startup_settings:
  assumes "start su = (Ok sv, events)"
  shows "\<exists>config auth.
    config_load (su_read su) (su_toml su) (su_env su) (parse_config_path (su_args su)) = Ok config \<and>
    build_authenticator (su_from_secret su) (su_from_jwk su) (su_get su) (su_parse su) config = Ok auth \<and>
    su_bind su (cf_listen config) = Ok () \<and> sv_listen sv = cf_listen config \<and>
    (if tls_enabled (cf_tls config)
     then \<exists>sc. load_server_config (su_tls su) (cf_tls config) = Ok sc \<and> sv_tls sv = Some sc
     else sv_tls sv = None) \<and>
    in_authenticator (sv_inner sv) = auth \<and> in_policy (sv_inner sv) = cf_policy config \<and>
    in_proxy (sv_inner sv) = proxy_new (cf_upstream config) \<and>
    in_allow_anonymous_read (sv_inner sv) = au_allow_anonymous_read (cf_auth config) \<and>
    in_fail_closed_on_parse_error (sv_inner sv) = po_fail_closed_on_parse_error (cf_policy config) \<and>
    in_rate_limiters (sv_inner sv) = rate_limiters_new (su_quota_new su) (su_keyed su)
      (rl_read_per_minute (cf_ratelimit config)) (rl_write_per_minute (cf_ratelimit config)) \<and>
    \<not> in_audit_reads (sv_inner sv) \<and> \<not> in_log_variables (sv_inner sv) \<and>
    unat (in_body_limit (sv_inner sv)) = 2 ^ 20 \<and> in_audit (sv_inner sv) = Stdout \<and>
    take 3 events = [LoggerInit (env_filter (su_env_filter su)), MetricsSpawned (cf_metrics config),
      ListenerBound (cf_listen config)]"
proof -
  from assms obtain config auth where
    "config_load (su_read su) (su_toml su) (su_env su) (parse_config_path (su_args su)) = Ok config"
    "build_authenticator (su_from_secret su) (su_from_jwk su) (su_get su) (su_parse su) config = Ok auth"
    and inner: "sv_inner sv = build_state su config auth" and "sv_listen sv = cf_listen config"
    "su_bind su (cf_listen config) = Ok ()"
    "if tls_enabled (cf_tls config)
      then \<exists>sc. load_server_config (su_tls su) (cf_tls config) = Ok sc \<and> sv_tls sv = Some sc else sv_tls sv = None"
    "take 3 events = [LoggerInit (env_filter (su_env_filter su)), MetricsSpawned (cf_metrics config),
      ListenerBound (cf_listen config)]"
    by (rule start_built)
  then show ?thesis
    by (intro exI [of _ config] exI [of _ auth]) (simp add: inner build_state_fields)
qed

definition ex_startup ::
  "(bytes, unit, unit, nat, string \<Rightarrow> gcra_cell, bytes list, bytes list, bytes list, unit) startup_ext" where
  "ex_startup =
     \<lparr>su_env_filter = Err ''RUST_LOG is not set'', su_args = [''-v'', ''-c'', ''iga.toml''], su_read = Ok, su_toml = (\<lambda>_. Ok ex_config),
      su_env = (\<lambda>_. Some ''s3cret''), su_install = Ok (), su_client = Ok (), su_from_secret = (\<lambda>s. s),
      su_from_jwk = (\<lambda>_. Err ''unsupported''), su_get = (\<lambda>_. Ok ()), su_parse = (\<lambda>_. Ok []),
      su_quota_new = ex_quota, su_keyed = ex_keyed, su_bind = (\<lambda>_. Ok ()), su_tls = ex_tls_lib\<rparr>"

lemma ex_startup_config:
  "\<exists>config. config_load (su_read ex_startup) (su_toml ex_startup) (su_env ex_startup)
       (parse_config_path (su_args ex_startup)) = Ok config \<and>
     cf_listen config = cf_listen ex_config \<and> cf_metrics config = cf_metrics ex_config \<and>
     cf_tls config = tls_default \<and> au_mode (cf_auth config) = ModeBearer"
  by (simp add: config_load_def ex_startup_def ex_config_def resolve_secrets_def resolve_token_def
    resolve_secret_def resolve_jwt_def)

lemma ex_startup_start: "\<exists>sv events. start ex_startup = (Ok sv, events) \<and> sv_tls sv = None"
proof -
  from ex_startup_config obtain config where
    c: "config_load (su_read ex_startup) (su_toml ex_startup) (su_env ex_startup)
       (parse_config_path (su_args ex_startup)) = Ok config"
    and m: "au_mode (cf_auth config) = ModeBearer" and t: "cf_tls config = tls_default"
    by blast
  have x: "install_recorder (su_install ex_startup) = Ok ()" "su_client ex_startup = Ok ()"
    "su_bind ex_startup = (\<lambda>_. Ok ())"
    by (simp_all add: ex_startup_def install_recorder_def)
  show ?thesis
    unfolding start_def c Let_def sum.case x
    by (simp add: with_context_def build_authenticator_def authenticator_from_config_def m
      open_listener_def x t tls_default_def)
qed

theorem startup_settings_witness:
  "\<exists>sv events. start ex_startup = (Ok sv, events) \<and> \<not> in_log_variables (sv_inner sv) \<and>
     unat (in_body_limit (sv_inner sv)) = 2 ^ 20"
proof -
  from ex_startup_start obtain sv events where "start ex_startup = (Ok sv, events)" by blast
  with startup_settings [OF this] show ?thesis by blast
qed

definition ex_jwt_config :: config where
  "ex_jwt_config = ex_config\<lparr>cf_auth :=
     \<lparr>au_mode = ModeJwt, au_allow_anonymous_read = False, au_tokens = [],
      au_jwt = Some \<lparr>jc_issuer = ''iss'', jc_audience = ''aud'', jc_jwks_url = None,
                     jc_hs256_secret = Some ''k'', jc_scopes_claim = ''scopes''\<rparr>,
      au_mtls = []\<rparr>\<rparr>"

theorem build_authenticator_sound_witness:
  "\<exists>b. build_authenticator (\<lambda>s. s) (\<lambda>_ :: unit jwk. Err []) (\<lambda>_. Ok ()) (\<lambda>_. Ok []) ex_jwt_config = Ok (AuthJwt b) \<and>
     va_issuer (jb_validation b) = [''iss''] \<and> jb_keys b = [''k'']"
proof -
  obtain auth where a: "build_authenticator (\<lambda>s. s) (\<lambda>_ :: unit jwk. Err []) (\<lambda>_. Ok ()) (\<lambda>_. Ok []) ex_jwt_config = Ok auth"
    by (simp add: build_authenticator_def ex_jwt_config_def authenticator_from_config_def jwt_from_config_def)
  from build_authenticator_sound [OF a] a show ?thesis by (auto simp: ex_jwt_config_def)
qed

end
