(* ===== verification/Iga_Process.thy ===== *)
theory Iga_Process
  imports Iga_Runs Iga_Main
begin

text \<open>
  The whole process: start-up, the accept loop, the requests of the accepted connections and the
  concurrent handlers, as one step relation. A process boots if its start-up succeeds and then, until
  it ends, meets events of the outside world, hands requests of served connections to the router and
  advances handlers. Every state of a process is a state of a run of handlers in the sense of
  \<open>Iga_Runs\<close> (\<open>process_run\<close>), so that what holds of all runs holds of the process, now with the
  configuration file as the only source of the settings and the accepted connections as the only
  source of requests. A state also keeps, for each handler, the connection its request came in on.

  The requests of a connection are those of \<open>serve_connection\<close> over TLS. Without TLS the HTTP
  framework puts the peer address into each request, and there is no certificate.
\<close>

section \<open>Connections\<close>

record 'r connection =
  cn_handshake :: "(bytes list option, string) result"
  cn_peer :: string
  cn_incoming :: "'r request list"

definition connection_requests ::
  "(bytes \<Rightarrow> x509 option) \<Rightarrow> ('k, 'l, 'sc) server \<Rightarrow> 'r connection \<Rightarrow> 'r request list" where
  "connection_requests from_der sv conn =
     (case sv_tls sv of
        Some _ \<Rightarrow> serve_connection from_der (cn_handshake conn) (cn_peer conn) (cn_incoming conn)
      | None \<Rightarrow> map (inject (cn_peer conn) None) (cn_incoming conn))"

text \<open>The router hands every request but the probes to the handler; a probe changes nothing.\<close>

definition is_probe :: "'r request \<Rightarrow> bool" where
  "is_probe rq \<longleftrightarrow> rq_path rq = ''/healthz'' \<or> rq_path rq = ''/readyz''"

lemma build_router_cases:
  "\<not> is_probe rq \<Longrightarrow> build_router text_response other_method x rq gw = handle x rq gw"
  "is_probe rq \<Longrightarrow> snd (build_router text_response other_method x rq gw) = gw"
  by (auto simp: build_router_def is_probe_def)

definition gateway_new :: "('k, 'l) inner \<Rightarrow> ('k, 'l) gateway" where
  "gateway_new st =
     \<lparr>gw_inner = st, gw_audit = \<lparr>al_lines = [], al_errors = []\<rparr>, gw_metrics = metrics_start,
      gw_sent = [], gw_warnings = []\<rparr>"

section \<open>The process\<close>

text \<open>
  A state of the process: what the world did so far, the gateway, the tasks, the connection that each
  task's request came in on, at the same index, and the checks of the limiters.
\<close>

inductive process ::
  "('k, 'j, 'h, 'q, 'l, 'rs, 'v, 'sc, 'm) startup_ext \<Rightarrow>
   ('r connection listen_event list \<Rightarrow> (unit, string) result option \<times> 'r connection list) \<Rightarrow>
   (bytes \<Rightarrow> x509 option) \<Rightarrow> ('t \<Rightarrow> 'l \<Rightarrow> string \<Rightarrow> bool \<times> 'l) \<Rightarrow> ('k, 'l, 'sc) server \<Rightarrow>
   'r connection world_event list \<Rightarrow> ('k, 'l) gateway \<Rightarrow> ('k, 'l, 't, 'b, 'r) task list \<Rightarrow>
   'r connection list \<Rightarrow> 't check_event list \<Rightarrow> bool"
  for su :: "('k, 'j, 'h, 'q, 'l, 'rs, 'v, 'sc, 'm) startup_ext"
    and axum_serve :: "'r connection listen_event list \<Rightarrow> (unit, string) result option \<times> 'r connection list"
    and from_der :: "bytes \<Rightarrow> x509 option" and ck :: "'t \<Rightarrow> 'l \<Rightarrow> string \<Rightarrow> bool \<times> 'l" where
  boot: "start su = (Ok sv, events) \<Longrightarrow>
     process su axum_serve from_der ck sv [] (gateway_new (sv_inner sv)) [] [] []"
| meet: "process su axum_serve from_der ck sv world gw ts cs tr \<Longrightarrow> fst (main su axum_serve world) = None \<Longrightarrow>
     process su axum_serve from_der ck sv (world @ [w]) gw ts cs tr"
| dispatch: "process su axum_serve from_der ck sv world gw ts cs tr \<Longrightarrow> fst (main su axum_serve world) = None \<Longrightarrow>
     conn \<in> set (snd (main su axum_serve world)) \<Longrightarrow> rq \<in> set (connection_requests from_der sv conn) \<Longrightarrow>
     \<not> is_probe rq \<Longrightarrow> x_check_key x = ck \<Longrightarrow>
     process su axum_serve from_der ck sv world gw (ts @ [Received x rq]) (cs @ [conn]) tr"
| handle_on: "process su axum_serve from_der ck sv world gw ts cs tr \<Longrightarrow> fst (main su axum_serve world) = None \<Longrightarrow>
     i < length ts \<Longrightarrow> advance (ts ! i) gw = (t', gw') \<Longrightarrow>
     process su axum_serve from_der ck sv world gw' (ts[i := t']) cs (tr @ checks_of (ts ! i) gw)"

section \<open>Simulation\<close>

lemma process_start: "process su axum_serve from_der ck sv world gw ts cs tr \<Longrightarrow> \<exists>events. start su = (Ok sv, events)"
  by (induction rule: process.induct) auto

lemma process_run:
  "process su axum_serve from_der ck sv world gw ts cs tr \<Longrightarrow> reach ck (gateway_new (sv_inner sv)) gw ts tr"
proof (induction rule: process.induct)
  case (boot sv events)
  show ?case by (rule reach.idle)
next
  case (dispatch sv world gw ts cs tr conn rq x)
  show ?case by (rule reach.arrive [OF dispatch.IH dispatch.hyps(6)])
next
  case (handle_on sv world gw ts cs tr i t' gw')
  show ?case by (rule reach.progress [OF handle_on.IH handle_on.hyps(3,4)])
qed

lemma accepted_event: "Accepted c \<in> set (map listen_event_of world) \<longleftrightarrow> Connection c \<in> set world"
proof -
  have "listen_event_of w = Accepted c \<longleftrightarrow> w = Connection c" for w :: "'a world_event"
    by (cases w) (auto simp: shutdown_signal_def)
  then show ?thesis unfolding set_map by (metis imageE imageI)
qed

context accept_loop
begin

lemma accepted_connection: "conn \<in> set (snd (loop (map listen_event_of world))) \<Longrightarrow> Connection conn \<in> set world"
  using serves_accepted [of "map listen_event_of world", unfolded accepted_event] by blast

end

lemma main_accepted:
  assumes "accept_loop axum_serve" and "conn \<in> set (snd (main su axum_serve world))"
  shows "Connection conn \<in> set world"
  using assms(2) accept_loop.accepted_connection [OF assms(1), of conn world]
    tls_loop.accepted_connection [of conn world]
  unfolding main_def run_server_def
  by (auto simp: Let_def case_prod_beta split: sum.splits option.splits)

text \<open>Each task serves a request of its own connection, and the world opened that connection.\<close>

definition task_on ::
  "(bytes \<Rightarrow> x509 option) \<Rightarrow> ('k, 'l, 'sc) server \<Rightarrow> 'r connection world_event list \<Rightarrow>
   ('k, 'l, 't, 'b, 'r) task \<Rightarrow> 'r connection \<Rightarrow> bool" where
  "task_on from_der sv world t conn \<longleftrightarrow> Connection conn \<in> set world \<and>
     snd (task_rq t) \<in> set (connection_requests from_der sv conn) \<and> \<not> is_probe (snd (task_rq t))"

lemma process_connections:
  assumes "process su axum_serve from_der ck sv world gw ts cs tr" and "accept_loop axum_serve"
  shows "list_all2 (task_on from_der sv world) ts cs"
  using assms(1)
proof (induction rule: process.induct)
  case (boot sv events)
  show ?case by simp
next
  case (meet sv world gw ts cs tr w)
  show ?case by (rule list_all2_mono [OF meet.IH]) (simp add: task_on_def)
next
  case (dispatch sv world gw ts cs tr conn rq x)
  from main_accepted [OF assms(2) dispatch.hyps(3)] dispatch.hyps(4,5)
  have "task_on from_der sv world (Received x rq) conn" by (simp add: task_on_def)
  with dispatch.IH show ?case by (simp add: list_all2_appendI)
next
  case (handle_on sv world gw ts cs tr i t' gw')
  with list_all2_nthD have "task_on from_der sv world (ts ! i) (cs ! i)" by blast
  then have "task_on from_der sv world t' (cs ! i)"
    unfolding task_on_def advance_task_rq [OF handle_on.hyps(4)] .
  with list_all2_update_cong [OF handle_on.IH, of t' "cs ! i" i] show ?case by simp
qed

text \<open>Handling a request of a served connection to the end, with nothing in between.\<close>

lemma process_serves:
  assumes "process su axum_serve from_der ck sv world gw ts cs tr" and "fst (main su axum_serve world) = None"
    and "conn \<in> set (snd (main su axum_serve world))" and "rq \<in> set (connection_requests from_der sv conn)"
    and "\<not> is_probe rq" and "x_check_key x = ck"
  shows "\<exists>tr'. process su axum_serve from_der ck sv world (snd (handle x rq gw))
    (ts @ [Responded x rq (fst (handle x rq gw))]) (cs @ [conn]) tr'"
proof -
  obtain t1 g1 where 1: "advance (Received x rq) gw = (t1, g1)" by fastforce
  obtain t2 g2 where 2: "advance t1 g1 = (t2, g2)" by fastforce
  obtain t3 g3 where 3: "advance t2 g2 = (t3, g3)" by fastforce
  from advance_done_handle [of x rq gw] 1 2 3
  have t3: "t3 = Responded x rq (fst (handle x rq gw))" and g3: "g3 = snd (handle x rq gw)"
    by (simp_all add: advance_three)
  have r0: "process su axum_serve from_der ck sv world gw (ts @ [Received x rq]) (cs @ [conn]) tr"
    by (rule process.dispatch [OF assms])
  have r1: "process su axum_serve from_der ck sv world g1 (ts @ [t1]) (cs @ [conn]) tr"
    using process.handle_on [OF r0 assms(2), of "length ts" t1 g1] 1 by simp
  have r2: "process su axum_serve from_der ck sv world g2 (ts @ [t2]) (cs @ [conn]) (tr @ checks_of t1 g1)"
    using process.handle_on [OF r1 assms(2), of "length ts" t2 g2] 2 by simp
  have "process su axum_serve from_der ck sv world g3 (ts @ [t3]) (cs @ [conn]) ((tr @ checks_of t1 g1) @ checks_of t2 g2)"
    using process.handle_on [OF r2 assms(2), of "length ts" t3 g3] 3 by simp
  then show ?thesis unfolding t3 g3 by blast
qed

section \<open>What the configuration permits\<close>

text \<open>
  A request as it is handled arrived on a connection: it is one of the wire with the peer address
  and, over TLS, the identity of the leaf certificate of a completed handshake put in.
\<close>

definition arrived_on ::
  "(bytes \<Rightarrow> x509 option) \<Rightarrow> config \<Rightarrow> 'r connection \<Rightarrow> 'r request \<Rightarrow> bool" where
  "arrived_on from_der config conn rq \<longleftrightarrow>
     (\<exists>wire \<in> set (cn_incoming conn).
        if tls_enabled (cf_tls config)
        then \<exists>chain. cn_handshake conn = Ok chain \<and>
          rq = inject (cn_peer conn) (Option.bind chain (extract_identity from_der)) wire
        else rq = inject (cn_peer conn) None wire)"

text \<open>
  An upstream request that the configuration permits for a caller: the body could be read, it was
  classified, the caller was authorized for the classification, and the body was sent on as it is.
\<close>

definition authorized_delivery ::
  "config \<Rightarrow> principal \<Rightarrow> ('k, 'l, 't, 'b, 'r) ext \<Rightarrow> 'r request \<Rightarrow> upstream_request \<Rightarrow> bool" where
  "authorized_delivery config p x rq req \<longleftrightarrow>
     (\<exists>body c granted base.
        x_to_bytes x (rq_body rq) (1024 * 1024) = Ok body \<and>
        classify_request (x_from_slice x) (x_parse_query x) (rq_method rq) (fst (route (request_target rq)))
          body (po_fail_closed_on_parse_error (cf_policy config)) = Ok c \<and>
        authorize p c (cf_policy config) = Ok granted \<and>
        base_for (proxy_new (cf_upstream config)) (fst (route (request_target rq))) = Ok base \<and>
        req = \<lparr>ur_method = rq_method rq, ur_url = base @ snd (route (request_target rq)),
               ur_headers = filter_forward_headers (rq_headers rq), ur_body = body\<rparr>)"

text \<open>The caller is the one that the configured authenticator finds in the request.\<close>

definition configured_delivery ::
  "config \<Rightarrow> 'k authenticator \<Rightarrow> ('k, 'l, 't, 'b, 'r) ext \<Rightarrow> 'r request \<Rightarrow> upstream_request \<Rightarrow> bool" where
  "configured_delivery config auth x rq req \<longleftrightarrow>
     (\<exists>p. authenticate (x_ct_eq x) (x_decode x) auth
          \<lparr>cr_bearer = extract_bearer (x_to_str x) (rq_headers rq), cr_client_cert = rq_client_cert rq\<rparr>
          (au_allow_anonymous_read (cf_auth config)) = Ok p \<and>
        authorized_delivery config p x rq req)"

lemma permitted_delivery:
  "permitted x rq (build_state su config auth) req \<Longrightarrow> configured_delivery config auth x rq req"
  unfolding permitted_def admitted_def configured_delivery_def authorized_delivery_def verdict_def
    classified_def build_state_fields
  by blast

lemma connection_arrived:
  assumes "rq \<in> set (connection_requests from_der sv conn)" and "sv_tls sv \<noteq> None \<longleftrightarrow> tls_enabled (cf_tls config)"
  shows "arrived_on from_der config conn rq"
proof (cases "sv_tls sv")
  case None
  with assms show ?thesis by (auto simp: connection_requests_def arrived_on_def)
next
  case (Some sc)
  with assms show ?thesis
    by (cases "cn_handshake conn") (auto simp: connection_requests_def serve_connection_def arrived_on_def)
qed

text \<open>
  The delivery of a task: it came in on the given connection, and its own request, read with its own
  decoders, is one that the configuration permits to be sent as \<open>req\<close>.
\<close>

definition task_delivers ::
  "(bytes \<Rightarrow> x509 option) \<Rightarrow> config \<Rightarrow> 'k authenticator \<Rightarrow> 'r connection world_event list \<Rightarrow>
   'r connection \<Rightarrow> ('k, 'l, 't, 'b, 'r) task \<Rightarrow> upstream_request \<Rightarrow> bool" where
  "task_delivers from_der config auth world conn t req \<longleftrightarrow> Connection conn \<in> set world \<and>
     (case task_rq t of (x, rq) \<Rightarrow> \<not> is_probe rq \<and> arrived_on from_der config conn rq \<and>
        configured_delivery config auth x rq req)"

text \<open>The configuration that the process was started with governs every delivery.\<close>

lemma process_delivery:
  assumes "process su axum_serve from_der ck sv world gw ts cs tr" and "accept_loop axum_serve"
    and "config_load (su_read su) (su_toml su) (su_env su) (parse_config_path (su_args su)) = Ok config"
    and "build_authenticator (su_from_secret su) (su_from_jwk su) (su_get su) (su_parse su) config = Ok auth"
  shows "\<exists>senders. gw_sent gw = map snd senders \<and> distinct (map fst senders) \<and>
    (\<forall>(i, req) \<in> set senders. i < length ts \<and> task_delivers from_der config auth world (cs ! i) (ts ! i) req)"
proof -
  from process_start [OF assms(1)] obtain events where "start su = (Ok sv, events)" ..
  then obtain config' auth' where
    "config_load (su_read su) (su_toml su) (su_env su) (parse_config_path (su_args su)) = Ok config'"
    "build_authenticator (su_from_secret su) (su_from_jwk su) (su_get su) (su_parse su) config' = Ok auth'"
    and inner: "sv_inner sv = build_state su config' auth'"
    and tls: "if tls_enabled (cf_tls config')
      then \<exists>sc. load_server_config (su_tls su) (cf_tls config') = Ok sc \<and> sv_tls sv = Some sc else sv_tls sv = None"
    by (rule start_built)
  with assms(3,4) have same: "config' = config" "auth' = auth" by simp_all
  from tls have tls: "sv_tls sv \<noteq> None \<longleftrightarrow> tls_enabled (cf_tls config)" by (auto simp: same split: if_splits)
  from reach_sources [OF process_run [OF assms(1)]] obtain senders where
    sent: "gw_sent gw = map snd senders" and src: "sources (sv_inner sv) ts senders"
    by (auto simp: gateway_new_def)
  have "i < length ts \<and> task_delivers from_der config auth world (cs ! i) (ts ! i) req"
    if "(i, req) \<in> set senders" for i req
  proof -
    from src that have i: "i < length ts" and ok: "sender_ok (sv_inner sv) (ts ! i) req"
      by (auto simp: sources_def)
    from list_all2_nthD [OF process_connections [OF assms(1,2)] i]
    have "task_on from_der sv world (ts ! i) (cs ! i)" .
    with i ok connection_arrived [OF _ tls] permitted_delivery show ?thesis
      by (auto simp: task_delivers_def task_on_def sender_ok_def inner same case_prod_beta)
  qed
  with sent src show ?thesis by (intro exI [of _ senders]) (auto simp: sources_def)
qed

text \<open>What a delivery says about the caller when only certificates count.\<close>

lemma mtls_build:
  "au_mode (cf_auth config) = ModeMtls \<Longrightarrow>
     build_authenticator from_secret from_jwk get parse config = Ok (AuthMtls (mtls_new (au_mtls (cf_auth config))))"
  by (simp add: build_authenticator_def authenticator_from_config_def Let_def)

definition mapping_of :: "mtls_mapping \<Rightarrow> mapping_record" where
  "mapping_of m = \<lparr>mp_subject = mm_subject m, mp_name = mm_name m, mp_scopes = mm_scopes m\<rparr>"

lemma mtls_new_mapping: "mb_mappings (mtls_new ms) = map mapping_of ms"
  by (simp add: mtls_new_def mapping_of_def)

lemma mtls_delivery:
  assumes "configured_delivery config (AuthMtls (mtls_new ms)) x rq req"
    and "\<not> au_allow_anonymous_read (cf_auth config)"
  obtains cc m where "rq_client_cert rq = Some cc"
    "first_at (\<lambda>m. \<not> cert_matches cc (mapping_of m)) ms m" "cert_matches cc (mapping_of m)"
    "authorized_delivery config (principal_new (mm_name m) (mm_scopes m)) x rq req"
proof -
  from assms obtain p where p: "authenticate (x_ct_eq x) (x_decode x) (AuthMtls (mtls_new ms))
      \<lparr>cr_bearer = extract_bearer (x_to_str x) (rq_headers rq), cr_client_cert = rq_client_cert rq\<rparr> False = Ok p"
    and del: "authorized_delivery config p x rq req"
    by (auto simp: configured_delivery_def)
  from p obtain cc where cc: "rq_client_cert rq = Some cc" and "mtls_verify (mtls_new ms) cc = Ok p"
    by (cases "rq_client_cert rq") (auto simp: authenticate_def anonymous_fallback_def split: sum.splits auth_error.splits)
  then obtain m where "first_at (\<lambda>m. \<not> cert_matches cc (mapping_of m)) ms m" "cert_matches cc (mapping_of m)"
    "p = principal_new (mm_name m) (mm_scopes m)"
    by (auto simp: mtls_verify_def mtls_scan_Ok mtls_new_mapping first_at_map mapping_of_def)
  with cc del that show ?thesis by blast
qed

lemma mtls_arrival:
  assumes "arrived_on from_der config conn rq" and "rq_client_cert rq = Some cc"
    and "\<And>wire. wire \<in> set (cn_incoming conn) \<Longrightarrow> rq_client_cert wire = None"
  obtains leaf chain cert where "tls_enabled (cf_tls config)" "cn_handshake conn = Ok (Some (leaf # chain))"
    "from_der leaf = Some cert" "cert_matches cc = (\<lambda>mp. cert_subject cert (mp_subject mp))"
proof -
  from assms(1) obtain wire where wire: "wire \<in> set (cn_incoming conn)"
    and rq: "if tls_enabled (cf_tls config)
      then \<exists>chain. cn_handshake conn = Ok chain \<and>
        rq = inject (cn_peer conn) (Option.bind chain (extract_identity from_der)) wire
      else rq = inject (cn_peer conn) None wire"
    unfolding arrived_on_def by blast
  note identity = inject_identity(1) [OF assms(3) [OF wire]]
  have tls: "tls_enabled (cf_tls config)"
  proof (rule ccontr)
    assume "\<not> tls_enabled (cf_tls config)"
    with rq have "rq = inject (cn_peer conn) None wire" by simp
    with assms(2) identity show False by simp
  qed
  with rq obtain chain where chain: "cn_handshake conn = Ok chain"
    "rq = inject (cn_peer conn) (Option.bind chain (extract_identity from_der)) wire" by auto
  with assms(2) identity have "Option.bind chain (extract_identity from_der) = Some cc" by simp
  then obtain certs where certs: "chain = Some certs" "extract_identity from_der certs = Some cc"
    by (auto simp: bind_eq_Some_conv)
  from certs(2) obtain leaf rest cert where "certs = leaf # rest" "from_der leaf = Some cert"
    "cert_matches cc = (\<lambda>mp. cert_subject cert (mp_subject mp))"
    by (rule extract_identity_Some)
  with tls chain(1) certs(1) that show ?thesis by simp
qed

text \<open>
  A delivery to the holder of a certificate: the handshake of the task's connection completed with a
  chain whose leaf parses and carries the subject of a mapping, and the caller that was authorized is
  the principal of the first such mapping.
\<close>

definition certified_delivery ::
  "(bytes \<Rightarrow> x509 option) \<Rightarrow> config \<Rightarrow> 'r connection \<Rightarrow> ('k, 'l, 't, 'b, 'r) task \<Rightarrow>
   upstream_request \<Rightarrow> bool" where
  "certified_delivery from_der config conn t req \<longleftrightarrow>
     arrived_on from_der config conn (snd (task_rq t)) \<and>
     (\<exists>leaf chain cert m. cn_handshake conn = Ok (Some (leaf # chain)) \<and> from_der leaf = Some cert \<and>
        first_at (\<lambda>m. \<not> cert_subject cert (mm_subject m)) (au_mtls (cf_auth config)) m \<and>
        cert_subject cert (mm_subject m) \<and>
        authorized_delivery config (principal_new (mm_name m) (mm_scopes m))
          (fst (task_rq t)) (snd (task_rq t)) req)"

lemma delivery_certified:
  assumes "task_delivers from_der config (AuthMtls (mtls_new (au_mtls (cf_auth config)))) world conn t req"
    and "\<not> au_allow_anonymous_read (cf_auth config)"
    and "\<And>wire. Connection conn \<in> set world \<Longrightarrow> wire \<in> set (cn_incoming conn) \<Longrightarrow> rq_client_cert wire = None"
  shows "tls_enabled (cf_tls config) \<and> certified_delivery from_der config conn t req"
proof -
  from assms(1) have conn: "Connection conn \<in> set world"
    and arr: "arrived_on from_der config conn (snd (task_rq t))"
    and del: "configured_delivery config (AuthMtls (mtls_new (au_mtls (cf_auth config))))
      (fst (task_rq t)) (snd (task_rq t)) req"
    by (auto simp: task_delivers_def)
  from mtls_delivery [OF del assms(2)] obtain cc m where cc: "rq_client_cert (snd (task_rq t)) = Some cc"
    and m: "first_at (\<lambda>m. \<not> cert_matches cc (mapping_of m)) (au_mtls (cf_auth config)) m"
      "cert_matches cc (mapping_of m)"
    and auth: "authorized_delivery config (principal_new (mm_name m) (mm_scopes m))
      (fst (task_rq t)) (snd (task_rq t)) req" .
  from mtls_arrival [OF arr cc assms(3) [OF conn]] obtain leaf chain cert where tls: "tls_enabled (cf_tls config)"
    and leaf: "cn_handshake conn = Ok (Some (leaf # chain))" "from_der leaf = Some cert"
    and match: "cert_matches cc = (\<lambda>mp. cert_subject cert (mp_subject mp))" .
  from m have "first_at (\<lambda>m. \<not> cert_subject cert (mm_subject m)) (au_mtls (cf_auth config)) m"
    "cert_subject cert (mm_subject m)"
    by (simp_all add: match mapping_of_def)
  with tls arr leaf auth show ?thesis unfolding certified_delivery_def by blast
qed

section \<open>A concrete process\<close>

definition ex_serving_config :: "tls \<Rightarrow> auth_config \<Rightarrow> config" where
  "ex_serving_config t auth =
     \<lparr>cf_listen = ''0.0.0.0:8400'', cf_metrics = ''0.0.0.0:7300'', cf_upstream = ex_upstream, cf_tls = t,
      cf_auth = auth, cf_policy = ex_policy,
      cf_ratelimit = \<lparr>rl_write_per_minute = 2, rl_read_per_minute = 0\<rparr>\<rparr>"

definition ex_serving ::
  "config \<Rightarrow> (unit, unit, unit, nat, string \<Rightarrow> gcra_cell, bytes list, bytes list, bytes list, unit) startup_ext" where
  "ex_serving config =
     \<lparr>su_env_filter = Err ''RUST_LOG is not set'', su_args = [], su_read = Ok, su_toml = (\<lambda>_. Ok config),
      su_env = (\<lambda>_. None), su_install = Ok (), su_client = Ok (), su_from_secret = (\<lambda>_. ()),
      su_from_jwk = (\<lambda>_. Err ''unsupported''), su_get = (\<lambda>_. Ok ()), su_parse = (\<lambda>_. Ok []),
      su_quota_new = ex_quota, su_keyed = ex_keyed, su_bind = (\<lambda>_. Ok ()), su_tls = ex_tls_lib\<rparr>"

definition ex_bearer :: auth_config where
  "ex_bearer =
     \<lparr>au_mode = ModeBearer, au_allow_anonymous_read = True,
      au_tokens = [\<lparr>te_name = ''op'', te_token = ''t2'', te_scopes = [''write'', ''actions:execute'']\<rparr>],
      au_jwt = None, au_mtls = []\<rparr>"

text \<open>An accept loop without TLS that serves what it accepts and ends at the signal.\<close>

fun ex_axum :: "'c listen_event list \<Rightarrow> (unit, string) result option \<times> 'c list" where
  "ex_axum [] = (None, [])"
| "ex_axum (Accepted c # events) = (case ex_axum events of (r, cs) \<Rightarrow> (r, c # cs))"
| "ex_axum (AcceptFailed e # events) = ex_axum events"
| "ex_axum (Shutdown # events) = (Some (Ok ()), [])"

lemma ex_axum_accepts: "set (snd (ex_axum events)) \<subseteq> {c. Accepted c \<in> set events}"
  by (induction events rule: ex_axum.induct) (auto simp: case_prod_beta)

lemma ex_axum_accepted: "accept_loop ex_axum"
  by unfold_locales (rule ex_axum_accepts)

definition ex_connection :: "(bytes list option, string) result \<Rightarrow> 'r request \<Rightarrow> 'r connection" where
  "ex_connection handshake rq = \<lparr>cn_handshake = handshake, cn_peer = ''10.0.0.1'', cn_incoming = [rq]\<rparr>"

lemma ex_serving_start:
  assumes "resolve_secrets (\<lambda>_. None) c = Ok c"
    and "build_authenticator (\<lambda>_. ()) (\<lambda>_ :: unit jwk. Err ''unsupported'') (\<lambda>_. Ok ()) (\<lambda>_. Ok []) c = Ok auth"
    and "if tls_enabled (cf_tls c) then load_server_config ex_tls_lib (cf_tls c) = Ok sc \<and> served = Some sc
      else served = None"
  shows "\<exists>events. start (ex_serving c) =
    (Ok \<lparr>sv_listen = cf_listen c, sv_tls = served, sv_inner = build_state (ex_serving c) c auth\<rparr>, events)"
proof -
  have load: "config_load (su_read (ex_serving c)) (su_toml (ex_serving c)) (su_env (ex_serving c)) path = Ok c" for path
    using assms(1) by (simp add: config_load_def ex_serving_def)
  have auth: "build_authenticator (su_from_secret (ex_serving c)) (su_from_jwk (ex_serving c))
      (su_get (ex_serving c)) (su_parse (ex_serving c)) c = Ok auth"
    using assms(2) by (simp add: ex_serving_def)
  have x: "install_recorder (su_install (ex_serving c)) = Ok ()" "su_client (ex_serving c) = Ok ()"
    "su_bind (ex_serving c) = (\<lambda>_. Ok ())" "su_tls (ex_serving c) = ex_tls_lib"
    by (simp_all add: ex_serving_def install_recorder_def)
  show ?thesis
    unfolding start_def load Let_def sum.case x(1-3) auth
    using assms(3) by (simp add: with_context_def open_listener_def x split: if_splits)
qed

lemma ex_start_plain:
  "\<exists>events. start (ex_serving (ex_serving_config tls_default ex_bearer)) =
     (Ok \<lparr>sv_listen = ''0.0.0.0:8400'', sv_tls = None, sv_inner = ex_inner True\<rparr>, events)"
proof -
  let ?c = "ex_serving_config tls_default ex_bearer"
  have "build_state (ex_serving ?c) ?c (in_authenticator (ex_inner True)) = ex_inner True"
    by (simp add: build_state_def app_state_new_def app_options_default_def ex_inner_def ex_serving_def
      ex_serving_config_def ex_bearer_def ex_policy_def)
  moreover have "cf_listen ?c = ''0.0.0.0:8400''" by (simp add: ex_serving_config_def)
  ultimately show ?thesis
    using ex_serving_start [of ?c "in_authenticator (ex_inner True)" undefined None]
    by (simp add: ex_serving_config_def ex_bearer_def resolve_secrets_def resolve_token_def resolve_secret_def
      resolve_jwt_def build_authenticator_def authenticator_from_config_def static_token_new_def
      ex_inner_def tls_default_def)
qed

text \<open>The same gateway behind client certificates.\<close>

definition ex_mtls :: auth_config where
  "ex_mtls =
     \<lparr>au_mode = ModeMtls, au_allow_anonymous_read = False, au_tokens = [], au_jwt = None,
      au_mtls = [\<lparr>mm_subject = ''ci'', mm_name = ''op'', mm_scopes = [''write'', ''actions:execute'']\<rparr>]\<rparr>"

definition ex_mtls_inner :: "(unit, string \<Rightarrow> gcra_cell) inner" where
  "ex_mtls_inner = (ex_inner True)
     \<lparr>in_authenticator := AuthMtls (mtls_new (au_mtls ex_mtls)), in_allow_anonymous_read := False\<rparr>"

definition ex_der :: "bytes \<Rightarrow> x509 option" where
  "ex_der leaf = Some \<lparr>xc_common_names = [Some ''ci''], xc_alternative_names = None\<rparr>"

lemma ex_start_mtls:
  "\<exists>events sc. start (ex_serving (ex_serving_config ex_tls ex_mtls)) =
     (Ok \<lparr>sv_listen = ''0.0.0.0:8400'', sv_tls = Some sc, sv_inner = ex_mtls_inner\<rparr>, events)"
proof -
  let ?c = "ex_serving_config ex_tls ex_mtls"
  have "build_state (ex_serving ?c) ?c (AuthMtls (mtls_new (au_mtls ex_mtls))) = ex_mtls_inner"
    by (simp add: build_state_def app_state_new_def app_options_default_def ex_mtls_inner_def ex_inner_def
      ex_serving_def ex_serving_config_def ex_mtls_def ex_policy_def)
  moreover have "load_server_config ex_tls_lib (cf_tls ?c) = Ok [''ca.pem'']"
    by (simp add: load_server_config_def load_certs_def load_private_key_def load_root_store_def
      context_defs ex_tls_def ex_tls_lib_def ex_serving_config_def)
  moreover have "cf_listen ?c = ''0.0.0.0:8400''" "tls_enabled (cf_tls ?c)" "cf_auth ?c = ex_mtls"
    by (simp_all add: ex_serving_config_def ex_tls_def)
  moreover have "resolve_secrets (\<lambda>_. None) ?c = Ok ?c"
    by (simp add: ex_serving_config_def ex_mtls_def resolve_secrets_def resolve_jwt_def)
  moreover have "au_mode ex_mtls = ModeMtls" by (simp add: ex_mtls_def)
  ultimately show ?thesis
    using ex_serving_start [of ?c "AuthMtls (mtls_new (au_mtls ex_mtls))" "[''ca.pem'']" "Some [''ca.pem'']"]
    by (auto simp: mtls_build)
qed

text \<open>A process that has accepted one connection and answered its one request.\<close>

lemma ex_process_handled:
  fixes conn :: "'r connection" and x :: "('k, 'l, 't, 'b, 'r) ext"
  assumes "start su = (Ok sv, events)"
    and "main su ex_axum [Connection conn] = (None, [conn])"
    and "rq \<in> set (connection_requests from_der sv conn)" and "\<not> is_probe rq"
  shows "\<exists>tr. process su ex_axum from_der (x_check_key x) sv [Connection conn]
    (snd (handle x rq (gateway_new (sv_inner sv)))) [Responded x rq (fst (handle x rq (gateway_new (sv_inner sv))))] [conn] tr"
proof -
  from assms(1) have "fst (main su ex_axum ([] :: 'r connection world_event list)) = None"
    by (cases "sv_tls sv") (simp_all add: main_def run_server_def)
  from process.meet [OF process.boot [OF assms(1)] this, where from_der = from_der and ck = "x_check_key x"
    and w = "Connection conn"]
  have p: "process su ex_axum from_der (x_check_key x) sv [Connection conn] (gateway_new (sv_inner sv))
      ([] :: ('k, 'l, 't, 'b, 'r) task list) [] []" by simp
  from process_serves [OF p, of conn rq x] assms(2-4) show ?thesis by simp
qed

section \<open>Main theorems\<close>

text \<open>
  C2. From the configuration file to the upstream: at any moment of any execution of the process,
  each request sent to an upstream has a sender of its own among the tasks, the handler of one
  request that came in on one connection, accepted since the start, over a completed handshake if TLS
  is configured, and that is no probe. The caller of just that request, identified by the credentials
  in its headers and the certificate of its own connection, was authenticated by the configured
  backend; its body of at most a mebibyte was classified under the configured parse policy; the
  caller was authorized for that classification by the configured policy; and it went with that very
  body to the configured upstream of its route. No two sent requests have the same sender.
\<close>

theorem process_end_to_end:
  assumes "process su axum_serve from_der ck sv world gw ts cs tr" and "accept_loop axum_serve"
  shows "\<exists>config auth senders.
    config_load (su_read su) (su_toml su) (su_env su) (parse_config_path (su_args su)) = Ok config \<and>
    build_authenticator (su_from_secret su) (su_from_jwk su) (su_get su) (su_parse su) config = Ok auth \<and>
    gw_sent gw = map snd senders \<and> distinct (map fst senders) \<and> length cs = length ts \<and>
    (\<forall>(i, req) \<in> set senders. i < length ts \<and> Connection (cs ! i) \<in> set world \<and>
       (case task_rq (ts ! i) of (x, rq) \<Rightarrow> \<not> is_probe rq \<and> arrived_on from_der config (cs ! i) rq \<and>
          configured_delivery config auth x rq req))"
proof -
  from process_start [OF assms(1)] obtain events where "start su = (Ok sv, events)" ..
  then obtain config auth where loaded:
    "config_load (su_read su) (su_toml su) (su_env su) (parse_config_path (su_args su)) = Ok config"
    "build_authenticator (su_from_secret su) (su_from_jwk su) (su_get su) (su_parse su) config = Ok auth"
    by (rule start_built)
  from list_all2_lengthD [OF process_connections [OF assms]] have "length cs = length ts" by simp
  with process_delivery [OF assms loaded] loaded show ?thesis
    unfolding task_delivers_def by (intro exI [of _ config] exI [of _ auth]) blast
qed

lemma ex_process:
  "\<exists>sv tr. process (ex_serving (ex_serving_config tls_default ex_bearer)) ex_axum (\<lambda>_. None) (x_check_key ex_ext) sv
     [Connection (ex_connection (Ok None) (ex_request ex_auth ''POST'' ''/'' ''forged''))]
     (snd (handle ex_ext (ex_request ex_auth ''POST'' ''/'' ''forged'') (ex_gateway True)))
     [Responded ex_ext (ex_request ex_auth ''POST'' ''/'' ''forged'')
        (fst (handle ex_ext (ex_request ex_auth ''POST'' ''/'' ''forged'') (ex_gateway True)))]
     [ex_connection (Ok None) (ex_request ex_auth ''POST'' ''/'' ''forged'')] tr"
proof -
  let ?su = "ex_serving (ex_serving_config tls_default ex_bearer)"
  let ?rq = "ex_request ex_auth ''POST'' ''/'' ''forged''"
  let ?conn = "ex_connection (Ok None) ?rq"
  from ex_start_plain obtain events where
    st: "start ?su = (Ok \<lparr>sv_listen = ''0.0.0.0:8400'', sv_tls = None, sv_inner = ex_inner True\<rparr>, events)"
    (is "_ = (Ok ?sv, _)") by blast
  have m: "main ?su ex_axum [Connection ?conn] = (None, [?conn])"
    by (simp add: main_def st run_server_def)
  have g: "gateway_new (sv_inner ?sv) = ex_gateway True" by (simp add: gateway_new_def ex_gateway_def)
  have rq: "?rq \<in> set (connection_requests (\<lambda>_. None) ?sv ?conn)" "\<not> is_probe ?rq"
    by (simp_all add: connection_requests_def ex_connection_def inject_def ex_request_def is_probe_def)
  from ex_process_handled [OF st m rq, of ex_ext] show ?thesis unfolding g by blast
qed

lemma ex_bearer_loaded:
  "config_load (su_read (ex_serving (ex_serving_config tls_default ex_bearer)))
     (su_toml (ex_serving (ex_serving_config tls_default ex_bearer)))
     (su_env (ex_serving (ex_serving_config tls_default ex_bearer))) path = Ok (ex_serving_config tls_default ex_bearer)"
  "build_authenticator from_secret from_jwk get parse (ex_serving_config tls_default ex_bearer) =
     Ok (in_authenticator (ex_inner True))"
  by (simp_all add: config_load_def ex_serving_def ex_serving_config_def ex_bearer_def resolve_secrets_def
      resolve_token_def resolve_secret_def resolve_jwt_def build_authenticator_def
      authenticator_from_config_def static_token_new_def ex_inner_def)

theorem process_end_to_end_witness:
  "arrived_on (\<lambda>_. None) (ex_serving_config tls_default ex_bearer)
     (ex_connection (Ok None) (ex_request ex_auth ''POST'' ''/'' ''forged''))
     (ex_request ex_auth ''POST'' ''/'' ''forged'') \<and>
   configured_delivery (ex_serving_config tls_default ex_bearer) (in_authenticator (ex_inner True)) ex_ext
     (ex_request ex_auth ''POST'' ''/'' ''forged'')
     \<lparr>ur_method = ''POST'', ur_url = ''http://m:1/'', ur_headers = [(''accept'', ''*'')], ur_body = ''forged''\<rparr>"
proof -
  let ?rq = "ex_request ex_auth ''POST'' ''/'' ''forged''"
  from ex_process obtain sv tr where
    p: "process (ex_serving (ex_serving_config tls_default ex_bearer)) ex_axum (\<lambda>_. None) (x_check_key ex_ext) sv
     [Connection (ex_connection (Ok None) ?rq)] (snd (handle ex_ext ?rq (ex_gateway True)))
     [Responded ex_ext ?rq (fst (handle ex_ext ?rq (ex_gateway True)))] [ex_connection (Ok None) ?rq] tr"
    by blast
  from process_end_to_end [OF p ex_axum_accepted] show ?thesis
    unfolding ex_sent_write by (auto simp: map_eq_Cons_conv ex_bearer_loaded)
qed

text \<open>
  C28. Certificates only: a process whose configuration selects the certificate backend without
  anonymous reads sends nothing upstream unless TLS is enabled, and each request it sends comes from
  a task of its own, on a connection whose own handshake completed with a certificate chain, the leaf
  of which can be parsed and carries, as its first common name or one of its alternative names, a
  subject of the configured mapping. The first mapping with such a subject names the caller, and it
  is for this caller that the very request of the task was authorized. Requests on the wire are
  assumed to bring no identity of their own.
\<close>

theorem process_mtls:
  assumes "process su axum_serve from_der ck sv world gw ts cs tr" and "accept_loop axum_serve"
    and "config_load (su_read su) (su_toml su) (su_env su) (parse_config_path (su_args su)) = Ok config"
    and "au_mode (cf_auth config) = ModeMtls" and "\<not> au_allow_anonymous_read (cf_auth config)"
    and "\<And>conn wire. Connection conn \<in> set world \<Longrightarrow> wire \<in> set (cn_incoming conn) \<Longrightarrow> rq_client_cert wire = None"
  shows "\<exists>senders. gw_sent gw = map snd senders \<and> distinct (map fst senders) \<and> length cs = length ts \<and>
    (\<forall>(i, req) \<in> set senders. i < length ts \<and> Connection (cs ! i) \<in> set world \<and>
       tls_enabled (cf_tls config) \<and> certified_delivery from_der config (cs ! i) (ts ! i) req)"
proof -
  from process_delivery [OF assms(1-3) mtls_build [OF assms(4)]] obtain senders where
    senders: "gw_sent gw = map snd senders" "distinct (map fst senders)"
    and each: "\<forall>(i, req) \<in> set senders. i < length ts \<and>
      task_delivers from_der config (AuthMtls (mtls_new (au_mtls (cf_auth config)))) world (cs ! i) (ts ! i) req"
    by blast
  have "i < length ts \<and> Connection (cs ! i) \<in> set world \<and> tls_enabled (cf_tls config) \<and>
      certified_delivery from_der config (cs ! i) (ts ! i) req" if "(i, req) \<in> set senders" for i req
    using each that delivery_certified [OF _ assms(5,6), of from_der world "cs ! i" "ts ! i" req]
    by (auto simp: task_delivers_def)
  with senders list_all2_lengthD [OF process_connections [OF assms(1,2)]] show ?thesis
    by (intro exI [of _ senders]) auto
qed

text \<open>The request of the holder of a mapped certificate, on its connection.\<close>

definition ex_mtls_request :: "bytes request" where
  "ex_mtls_request = inject ''10.0.0.1'' (Some \<lparr>cc_subject_cn = Some ''ci'', cc_sans = []\<rparr>)
     (ex_request [] ''POST'' ''/'' ''forged'')"

lemma ex_mtls_request_fields:
  "rq_method ex_mtls_request = ''POST''" "request_target ex_mtls_request = ''/''" "rq_headers ex_mtls_request = []"
  "rq_body ex_mtls_request = ''forged''" "\<not> is_probe ex_mtls_request"
  "rq_client_cert ex_mtls_request = Some \<lparr>cc_subject_cn = Some ''ci'', cc_sans = []\<rparr>"
  by (simp_all add: ex_mtls_request_def inject_def ex_request_def request_target_def is_probe_def)

lemma ex_mtls_decide:
  "decide ex_ext ex_mtls_request ex_mtls_inner = Forward ex_op ''forged'' ex_classification"
  unfolding decide_Forward_iff
proof (intro conjI exI)
  show "verdict ex_ext ex_mtls_request ex_mtls_inner = Ok ex_op"
    by (simp add: verdict_def authenticate_def ex_mtls_inner_def ex_mtls_request_fields anonymous_fallback_def
      mtls_verify_def mtls_new_def ex_mtls_def cert_matches_def ex_op_def)
  show "x_to_bytes ex_ext (rq_body ex_mtls_request) (in_body_limit ex_mtls_inner) = Ok ''forged''"
    by (simp add: ex_mtls_request_fields ex_mtls_inner_def ex_inner_def ex_ext_def)
  show "classified ex_ext ex_mtls_request ex_mtls_inner ''forged'' = Ok ex_classification"
    using ex_classify_forged
    by (simp add: classified_def classify_request_def ex_mtls_request_fields ex_route ex_ext_def
      ex_mtls_inner_def ex_inner_def ex_classification_def)
  show "authorize ex_op ex_classification (in_policy ex_mtls_inner) = Ok [''actions:execute'', ''write'']"
    using ex_authorize_op by (simp add: ex_mtls_inner_def ex_inner_def)
  show "within_budget ex_ext ex_mtls_inner ex_op ex_classification"
    using ex_within [of True ex_op ex_classification] by (simp add: within_budget_def ex_mtls_inner_def)
qed

theorem process_mtls_witness:
  "\<exists>resp req. certified_delivery ex_der (ex_serving_config ex_tls ex_mtls)
     (ex_connection (Ok (Some [''der''])) (ex_request [] ''POST'' ''/'' ''forged''))
     (Responded ex_ext ex_mtls_request resp) req"
proof -
  let ?c = "ex_serving_config ex_tls ex_mtls"
  let ?conn = "ex_connection (Ok (Some [''der''])) (ex_request [] ''POST'' ''/'' ''forged'')"
  from ex_start_mtls obtain events sc where
    st: "start (ex_serving ?c) = (Ok \<lparr>sv_listen = ''0.0.0.0:8400'', sv_tls = Some sc, sv_inner = ex_mtls_inner\<rparr>, events)"
    (is "_ = (Ok ?sv, _)") by blast
  have m: "main (ex_serving ?c) ex_axum [Connection ?conn] = (None, [?conn])"
    by (simp add: main_def st run_server_def)
  have rq: "ex_mtls_request \<in> set (connection_requests ex_der ?sv ?conn)"
    by (simp add: connection_requests_def serve_connection_def ex_connection_def ex_mtls_request_def
      extract_identity_def ex_der_def)
  from ex_process_handled [OF st m rq ex_mtls_request_fields(5), of ex_ext] obtain tr where
    p: "process (ex_serving ?c) ex_axum ex_der (x_check_key ex_ext) ?sv [Connection ?conn]
      (snd (handle ex_ext ex_mtls_request (gateway_new ex_mtls_inner)))
      [Responded ex_ext ex_mtls_request (fst (handle ex_ext ex_mtls_request (gateway_new ex_mtls_inner)))]
      [?conn] tr"
    by auto
  have g: "gw_inner (gateway_new ex_mtls_inner) = ex_mtls_inner" by (simp add: gateway_new_def)
  have "px_agent_management (in_proxy ex_mtls_inner) = ''http://m:1''"
    by (simp add: ex_mtls_inner_def ex_inner_def proxy_new_def ex_upstream_def trim_trailing_slash_def strip_suffix_char_def)
  then have "\<exists>req. req \<in> set (gw_sent (snd (handle ex_ext ex_mtls_request (gateway_new ex_mtls_inner))))"
    unfolding handle_sent g ex_mtls_decide
    by (auto simp: upstream_result_def forward_sent g ex_mtls_request_fields ex_route)
  then obtain req where req: "req \<in> set (gw_sent (snd (handle ex_ext ex_mtls_request (gateway_new ex_mtls_inner))))" ..
  have "config_load (su_read (ex_serving ?c)) (su_toml (ex_serving ?c)) (su_env (ex_serving ?c))
      (parse_config_path (su_args (ex_serving ?c))) = Ok ?c"
    by (simp add: config_load_def ex_serving_def ex_serving_config_def ex_mtls_def resolve_secrets_def resolve_jwt_def)
  from process_mtls [OF p ex_axum_accepted this] obtain senders where
    senders: "gw_sent (snd (handle ex_ext ex_mtls_request (gateway_new ex_mtls_inner))) = map snd senders"
    and each: "\<forall>(i, req) \<in> set senders. i < Suc 0 \<and> certified_delivery ex_der ?c ([?conn] ! i)
      ([Responded ex_ext ex_mtls_request (fst (handle ex_ext ex_mtls_request (gateway_new ex_mtls_inner)))] ! i) req"
    by (auto simp: ex_serving_config_def ex_mtls_def ex_connection_def ex_request_def case_prod_beta)
  from req senders obtain i where "(i, req) \<in> set senders" by auto
  with each show ?thesis by fastforce
qed

end
