(* ===== verification/Spec2Isabelle.thy ===== *)
theory Spec2Isabelle
  imports Iga_Refill Iga_Isolation Iga_Trail Iga_Process
begin

text \<open>
  Verification of \<^verbatim>\<open>indexer-gateway-auth\<close>, a reverse proxy that puts authentication,
  authorization, rate limits and an audit trail in front of the management API of an indexer. The
  program is the Rust crate under \<^verbatim>\<open>src/src/\<close>. A request passes through authentication,
  classification of its GraphQL body, authorization, a rate limit and the proxy, and leaves an audit
  record and a metric.

  \<^bold>\<open>Parts and theories.\<close>
  \<^item> \<open>Iga_Prelude\<close>: \<^verbatim>\<open>Result\<close> as a sum (\<open>Ok\<close>, \<open>Err\<close>), loops with early return, the string
    routines of the standard library, and \<^verbatim>\<open>BTreeSet\<close> behind the locale \<open>ordered_set\<close>.
  \<^item> \<open>Iga_Json\<close>: JSON values with the accessors in use, and decimal text.
  \<^item> \<open>Iga_Config\<close> (\<^verbatim>\<open>config.rs\<close>): the sections, defaults and the resolution of secrets. It replaces
    exactly the secrets, and fails exactly at the first unset variable.
  \<^item> \<open>Iga_Principal\<close> (\<^verbatim>\<open>principal.rs\<close>): identities and the implication from write to read.
  \<^item> \<open>Iga_Classify\<close> (\<^verbatim>\<open>classify.rs\<close>): the classifier. The fields it collects are those an executor
    selects at the root, a scope is write exactly if an executable mutation is present, its failures
    are characterised, and the iteration order of hash maps does not matter.
  \<^item> \<open>Iga_Authz\<close> (\<^verbatim>\<open>authz.rs\<close>): the policy decision, exactly characterised and monotone.
  \<^item> \<open>Iga_Auth\<close> (\<^verbatim>\<open>auth/\<close>): the three backends, each an instance of the locale \<open>auth_backend\<close>, and
    the authenticator.
  \<^item> \<open>Iga_Ratelimit\<close> (\<^verbatim>\<open>ratelimit.rs\<close>): the limiters, with isolation between principals and scopes.
  \<^item> \<open>Iga_Refill\<close>: the limiters over time. A used-up budget is back after a minute, and in any minute
    at most twice the budget passes; the laws assumed of the limiter hold of the generic cell rate
    algorithm, which is the limiter of the example gateway.
  \<^item> \<open>Iga_Proxy\<close> (\<^verbatim>\<open>proxy.rs\<close>): routing, the two header filters as instances of the locale
    \<open>header_filter\<close>, and forwarding: a request goes to the configured address of its route, followed
    by a path with a leading slash unless the request target itself has none.
  \<^item> \<open>Iga_Audit\<close> (\<^verbatim>\<open>audit.rs\<close>): records, their JSON form, which loses nothing, and the sink.
  \<^item> \<open>Iga_Metrics\<close> (\<^verbatim>\<open>metrics.rs\<close>): counters and histograms with their consistency invariant.
  \<^item> \<open>Iga_Server\<close> (\<^verbatim>\<open>server.rs\<close>): the application state, the handler in three stages, the router.
  \<^item> \<open>Iga_Pipeline\<close>: the specification of the handler as a pure decision with its consequences, and
    the refinement of that specification by the handler: the response and the whole effect.
  \<^item> \<open>Iga_Effects\<close>: the contract of everything that changes the gateway (the configuration stays, the
    logs only grow) as the locale \<open>gateway_effect\<close>, with the helpers, stages and handler as instances.
  \<^item> \<open>Iga_Runs\<close>: concurrent requests as tasks that interleave at the await points of the handler,
    with invariants over all reachable states by rule induction. \<open>sources\<close> gives each sent request
    the one task that sent it.
  \<^item> \<open>Iga_Isolation\<close>: concurrent requests do not influence each other's answers, except through the
    limiter.
  \<^item> \<open>Iga_Tls\<close> (\<^verbatim>\<open>tls.rs\<close>): the server configuration, client identities and the accept loop.
  \<^item> \<open>Iga_Trail\<close>: the audit trail of concurrent requests: every line is a well-formed record, and
    every answered request has its line, up to the documented exceptions.
  \<^item> \<open>Iga_Main\<close> (\<^verbatim>\<open>main.rs\<close>): the log filter, the command line, the authenticator, the start-up
    sequence and serving, with the two ways the process ends.
  \<^item> \<open>Iga_Process\<close>: the process as one step relation from start-up over the accepted connections to
    the interleaved handlers. It is simulated by the runs of \<open>Iga_Runs\<close>, which gives the properties
    that reach from the configuration file and the wire to the upstream. Each task keeps its
    connection (\<open>task_on\<close>), so what is sent is traced to the credentials and the certificate it came
    with.
  \<^item> This theory: the properties of the whole pipeline.

  \<^bold>\<open>Correspondence.\<close> A struct is a record, an enum a datatype, a function one definition of the same
  name where that is free. A loop is a recursive function over the list it traverses, with the
  variables it updates as arguments. A failure is an \<open>Err\<close> with the source's error and text. State
  is passed explicitly: a \<open>gateway\<close> holds the shared state with its limiters, the audit log, the
  metrics, the requests handed to the HTTP client and the traced warnings. Rust strings are their
  UTF-8 bytes; machine integers are words of their width (\<^verbatim>\<open>u32\<close> budgets, \<^verbatim>\<open>u16\<close> statuses, and
  the cast of elapsed milliseconds to \<^verbatim>\<open>u64\<close>, which truncates).

  \<^bold>\<open>Parameters.\<close> Code outside the repository is a parameter of the definitions that use it: the JSON,
  GraphQL, TOML, PEM and X.509 parsers and printers, the constant-time comparison, the JWT decoder,
  the keyed rate limiter, the HTTP client and framework, TLS, the digest, clocks, files and the
  environment. What a theorem needs of such code is a hypothesis of it: that the comparison decides
  equality, the documented laws of the rate limiter (\<open>governor\<close>, \<open>replenishes\<close>,
  \<open>refill_bounded\<close>), that adding to a trust store puts one certificate in, and that the accept loop of the HTTP framework serves only
  what it accepted (\<open>accept_loop\<close>). Each such theorem has a witness with a concrete instance.

  \<^bold>\<open>Termination and fuel.\<close> Every definition is total. \<open>collect_top_fields\<close> terminates because each
  named fragment is entered once; the trimming of white space uses the length of the string as
  fuel, one unit per dropped character, which \<open>skip_many_enough\<close> shows to be enough.

  \<^bold>\<open>Not modelled.\<close> Timing, in particular that of the token comparison; the rounding of latencies
  to \<^verbatim>\<open>f64\<close>; what a failed write leaves in the audit file; the texts of informational log
  messages; the network I/O of the HTTP framework, and with it the draining of connections at a
  graceful shutdown; \<^verbatim>\<open>lib.rs\<close>, which only declares the modules; the fuzz target, the tests and the
  deployment files, which have no behaviour of their own. Every other function of the crate has its
  definition.
\<close>

section \<open>What reaches an upstream\<close>

text \<open>
  C1. Complete mediation: the handler hands a request to the HTTP client exactly when the client
  authenticates as some principal, the body can be read within the limit and is classified, the
  policy authorizes the principal for that classification, the rate budget allows it, and the routed
  upstream is configured. The request sent is then the one of the client with its method and the very
  body that was classified, at the routed address and with filtered headers. Otherwise nothing is
  sent, and never more than one request.
\<close>

theorem forward_iff_permitted:
  "(gw_sent (snd (handle x rq gw)) = gw_sent gw @ [req] \<longleftrightarrow>
     (\<exists>p body c granted base.
        verdict x rq (gw_inner gw) = Ok p \<and>
        x_to_bytes x (rq_body rq) (in_body_limit (gw_inner gw)) = Ok body \<and>
        classified x rq (gw_inner gw) body = Ok c \<and>
        authorize p c (in_policy (gw_inner gw)) = Ok granted \<and>
        within_budget x (gw_inner gw) p c \<and>
        base_for (in_proxy (gw_inner gw)) (fst (route (request_target rq))) = Ok base \<and>
        req = \<lparr>ur_method = rq_method rq, ur_url = base @ snd (route (request_target rq)),
               ur_headers = filter_forward_headers (rq_headers rq), ur_body = body\<rparr>)) \<and>
   (gw_sent (snd (handle x rq gw)) = gw_sent gw \<or>
     (\<exists>one. gw_sent (snd (handle x rq gw)) = gw_sent gw @ [one]))"
proof -
  let ?d = "decide x rq (gw_inner gw)"
  have iff: "decision_sent x rq gw d = gw_sent gw @ [req] \<longleftrightarrow>
      (\<exists>p body c base. d = Forward p body c \<and>
        base_for (in_proxy (gw_inner gw)) (fst (route (request_target rq))) = Ok base \<and>
        req = \<lparr>ur_method = rq_method rq, ur_url = base @ snd (route (request_target rq)),
               ur_headers = filter_forward_headers (rq_headers rq), ur_body = body\<rparr>)" for d
    by (cases d) (auto simp: upstream_result_def forward_sent split: sum.split)
  show ?thesis
    unfolding handle_sent iff using decision_sent_cases [of x rq gw ?d]
    by (auto simp: decide_Forward_iff)
qed

text \<open>
  C3. No mutation without the write scope: if a request is forwarded whose body contains a mutation
  that could execute, in whatever batch, document, alias or operation name it hides, then the caller
  authenticated as a principal with the scope \<^verbatim>\<open>write\<close>. This holds for every method but
  \<^verbatim>\<open>GET\<close>, outside the admin route, with the default fail-closed policy.
\<close>

theorem mutation_needs_write:
  assumes "gw_sent (snd (handle x rq gw)) \<noteq> gw_sent gw"
    and "in_fail_closed_on_parse_error (gw_inner gw)" and "rq_method rq \<noteq> ''GET''"
    and "fst (route (request_target rq)) \<noteq> GraphNodeAdmin"
    and "x_to_bytes x (rq_body rq) (in_body_limit (gw_inner gw)) = Ok body"
    and "executable_op (x_from_slice x) (x_parse_query x) body frags nop"
    and "od_ty (snd nop) = OtMutation"
  shows "\<exists>p. verdict x rq (gw_inner gw) = Ok p \<and> ''write'' \<in> pr_scopes p"
proof -
  from assms(1) obtain p body' c base r where p: "verdict x rq (gw_inner gw) = Ok p"
    and b: "x_to_bytes x (rq_body rq) (in_body_limit (gw_inner gw)) = Ok body'"
    and c: "classified x rq (gw_inner gw) body' = Ok c"
    and r: "authorize p c (in_policy (gw_inner gw)) = Ok r"
    by (rule handle_forwarded)
  with assms(2-5) have "classify (x_from_slice x) (x_parse_query x) body = Ok c"
    by (auto intro: classified_graphql)
  then have "cl_scope c = ScopeWrite" using assms(6,7) by (rule classify_mutation_write)
  with p authorized_write [OF r] show ?thesis by blast
qed

theorem mutation_needs_write_witness:
  "\<exists>p. verdict ex_ext (ex_request ex_auth ''POST'' ''/'' ''forged'') (gw_inner (ex_gateway True)) = Ok p \<and>
     ''write'' \<in> pr_scopes p"
proof -
  have sent: "gw_sent (snd (handle ex_ext (ex_request ex_auth ''POST'' ''/'' ''forged'') (ex_gateway True))) \<noteq>
      gw_sent (ex_gateway True)"
    unfolding ex_sent_write by (simp add: ex_gateway_def)
  have g: "gw_inner (ex_gateway True) = ex_inner True" by (simp add: ex_gateway_def)
  show ?thesis
    by (rule mutation_needs_write [OF sent _ _ _ _ ex_executable_forged])
      (simp_all add: g ex_to_bytes ex_request_def request_target_def ex_route ex_inner_def ex_ext_def ex_doc_def)
qed

text \<open>
  C4. Overrides are enforced on what would execute, wherever the body is classified as GraphQL: under
  the fail-closed policy, if a request with a method other than \<^verbatim>\<open>GET\<close> on a route other than
  the admin route is forwarded and some operation that could execute matches an override, by a field
  that is reachable at its root through any fragments and under any alias, or by its name, then the
  caller satisfies every scope of that override. (The bodies of \<^verbatim>\<open>GET\<close> requests and of the admin
  route are forwarded unclassified, so no override is checked for them.)
\<close>

theorem override_enforced:
  assumes "gw_sent (snd (handle x rq gw)) \<noteq> gw_sent gw"
    and "in_fail_closed_on_parse_error (gw_inner gw)" and "rq_method rq \<noteq> ''GET''"
    and "fst (route (request_target rq)) \<noteq> GraphNodeAdmin"
    and "x_to_bytes x (rq_body rq) (in_body_limit (gw_inner gw)) = Ok body"
    and "executable_op (x_from_slice x) (x_parse_query x) body frags nop"
    and "ov \<in> set (po_overrides (in_policy (gw_inner gw)))"
    and "ov_field ov \<noteq> None \<or> ov_operation ov \<noteq> None"
    and "\<And>f. ov_field ov = Some f \<Longrightarrow> root_field frags (od_selection_set (snd nop)) f"
    and "\<And>n. ov_operation ov = Some n \<Longrightarrow> fst nop = Some n"
    and "s \<in> set (ov_require_scopes ov)"
  shows "\<exists>p. verdict x rq (gw_inner gw) = Ok p \<and> satisfies p s"
proof -
  from assms(1) obtain p body' c base r where p: "verdict x rq (gw_inner gw) = Ok p"
    and b: "x_to_bytes x (rq_body rq) (in_body_limit (gw_inner gw)) = Ok body'"
    and c: "classified x rq (gw_inner gw) body' = Ok c"
    and r: "authorize p c (in_policy (gw_inner gw)) = Ok r"
    by (rule handle_forwarded)
  with assms(2-5) have "classify (x_from_slice x) (x_parse_query x) body = Ok c"
    by (auto intro: classified_graphql)
  then obtain oi where "oi \<in> set (cl_operations c)" and "override_matches ov oi"
    using assms(6,8-10) by (rule classify_override_match)
  with r have "satisfies p s" using assms(7,11) by (blast intro: authorized_override)
  with p show ?thesis by blast
qed

theorem override_enforced_witness:
  "\<exists>p. verdict ex_ext (ex_request ex_auth ''POST'' ''/'' ''forged'') (gw_inner (ex_gateway True)) = Ok p \<and>
     satisfies p ''actions:execute''"
proof -
  let ?nop = "ed_operations ex_doc ! 1"
  let ?ov = "\<lparr>ov_field = Some ''queueActions'', ov_operation = None, ov_require_scopes = [''actions:execute'']\<rparr>"
  have sent: "gw_sent (snd (handle ex_ext (ex_request ex_auth ''POST'' ''/'' ''forged'') (ex_gateway True))) \<noteq>
      gw_sent (ex_gateway True)"
    unfolding ex_sent_write by (simp add: ex_gateway_def)
  have "root_field (ed_fragments ex_doc) (od_selection_set (snd ?nop)) ''queueActions''"
    unfolding collect_iff [symmetric] by (simp add: ex_doc_def push_new_def)
  moreover have "gw_inner (ex_gateway True) = ex_inner True" by (simp add: ex_gateway_def)
  ultimately show ?thesis
    by (intro override_enforced [OF sent _ _ _ _ ex_executable_forged, of ?ov])
      (auto simp: ex_to_bytes ex_request_def request_target_def ex_route ex_inner_def ex_ext_def ex_policy_def)
qed

text \<open>
  C11. The admin endpoint: a request that is forwarded on the admin route with any method other than
  \<^verbatim>\<open>GET\<close> comes from a principal with the scope \<^verbatim>\<open>write\<close>, whatever its body.
\<close>

theorem admin_needs_write:
  assumes "gw_sent (snd (handle x rq gw)) \<noteq> gw_sent gw"
    and "rq_method rq \<noteq> ''GET''" and "fst (route (request_target rq)) = GraphNodeAdmin"
  shows "\<exists>p. verdict x rq (gw_inner gw) = Ok p \<and> ''write'' \<in> pr_scopes p"
proof -
  from assms(1) obtain p body c base r where p: "verdict x rq (gw_inner gw) = Ok p"
    and c: "classified x rq (gw_inner gw) body = Ok c"
    and r: "authorize p c (in_policy (gw_inner gw)) = Ok r"
    by (rule handle_forwarded)
  with assms(2,3) have "cl_scope c = ScopeWrite"
    by (auto simp: classified_def classify_request_def write_only_def)
  with p authorized_write [OF r] show ?thesis by blast
qed

theorem admin_needs_write_witness:
  "\<exists>p. verdict ex_ext (ex_request ex_auth ''POST'' ''/_admin/x'' ''rpc'') (gw_inner (ex_gateway True)) = Ok p \<and>
     ''write'' \<in> pr_scopes p"
proof (rule admin_needs_write)
  let ?rq = "ex_request ex_auth ''POST'' ''/_admin/x'' ''rpc''"
  have g: "gw_inner (ex_gateway True) = ex_inner True" "gw_sent (ex_gateway True) = []"
    by (simp_all add: ex_gateway_def)
  have t: "request_target ?rq = ''/_admin/x''" "rq_method ?rq = ''POST''"
    by (simp_all add: ex_request_def request_target_def)
  have "decide ex_ext ?rq (ex_inner True) = Forward ex_op ''rpc'' write_only"
    unfolding decide_Forward_iff
    by (simp add: ex_verdict_op ex_to_bytes ex_within classified_def classify_request_def t ex_route
      authorize_Ok_iff required_set_def write_only_def satisfies_iff ex_op_def principal_new_def)
  then show "gw_sent (snd (handle ex_ext ?rq (ex_gateway True))) \<noteq> gw_sent (ex_gateway True)"
    unfolding handle_sent g
    by (simp add: upstream_result_def forward_sent t ex_route g ex_inner_def proxy_new_def ex_upstream_def)
qed (simp_all add: ex_request_def request_target_def ex_route)

text \<open>
  C25. The fail-open switch does not stop at reads: with it, a body on the management route that cannot
  be classified is forwarded unchanged for every caller with read access, anonymous ones included,
  whose read budget allows it. Such a body may
  hold a mutation that the upstream can execute, for example in a batch beside a request that the
  gateway cannot parse.
\<close>

theorem fail_open_forwards_unclassified:
  assumes "\<not> in_fail_closed_on_parse_error (gw_inner gw)"
    and "verdict x rq (gw_inner gw) = Ok p" and "satisfies p ''read''"
    and "x_to_bytes x (rq_body rq) (in_body_limit (gw_inner gw)) = Ok body"
    and "fst (route (request_target rq)) = AgentManagement"
    and "classify (x_from_slice x) (x_parse_query x) body = Err e"
    and "within_budget x (gw_inner gw) p read_only"
  shows "\<exists>req. gw_sent (snd (handle x rq gw)) = gw_sent gw @ [req] \<and> ur_body req = body"
proof -
  have "classified x rq (gw_inner gw) body = Ok read_only"
    using assms(1,5,6) by (simp add: classified_def classify_request_def)
  with assms have "decide x rq (gw_inner gw) = Forward p body read_only"
    by (simp add: decide_Forward_iff authorize_read_only)
  with assms(5) show ?thesis
    unfolding handle_sent by (simp add: upstream_result_def forward_sent)
qed

definition ex_open_ext :: "(unit, string \<Rightarrow> gcra_cell, rat, bytes, bytes) ext" where
  "ex_open_ext = ex_ext\<lparr>x_from_slice := (\<lambda>_. Ok (Batch [\<lparr>gr_query = ''rw'', gr_operation_name = Some ''W''\<rparr>,
     \<lparr>gr_query = ''garbage'', gr_operation_name = None\<rparr>]))\<rparr>"

theorem fail_open_forwards_unclassified_witness:
  "(\<exists>req. gw_sent (snd (handle ex_open_ext (ex_request [] ''POST'' ''/'' ''batch'') (ex_gateway False))) =
      gw_sent (ex_gateway False) @ [req] \<and> ur_body req = ''batch'') \<and>
   (\<exists>frags nop. executable_op (x_from_slice ex_open_ext) (x_parse_query ex_open_ext) ''batch'' frags nop \<and>
      od_ty (snd nop) = OtMutation)"
proof
  let ?rq = "ex_request [] ''POST'' ''/'' ''batch''"
  have g: "gw_inner (ex_gateway False) = ex_inner False" by (simp add: ex_gateway_def)
  have v: "verdict ex_open_ext ?rq (ex_inner False) = Ok anonymous"
    using ex_verdict_anonymous [of "''POST''" "''/''" "''batch''" False]
    by (simp add: verdict_def ex_open_ext_def)
  have w: "within_budget ex_open_ext (ex_inner False) anonymous read_only"
    using ex_within [of False anonymous read_only] by (simp add: within_budget_def ex_open_ext_def)
  have b: "x_to_bytes ex_open_ext (rq_body ?rq) (in_body_limit (ex_inner False)) = Ok ''batch''"
    using ex_to_bytes [of "''batch''" "[]" "''POST''" "''/''" False] by (simp add: ex_open_ext_def)
  have c: "classify (x_from_slice ex_open_ext) (x_parse_query ex_open_ext) ''batch'' =
      Err (GraphqlParse ''expected a selection'')"
    by (simp add: ex_open_ext_def ex_ext_def ex_classify_defs)
  show "\<exists>req. gw_sent (snd (handle ex_open_ext ?rq (ex_gateway False))) =
      gw_sent (ex_gateway False) @ [req] \<and> ur_body req = ''batch''"
    by (rule fail_open_forwards_unclassified [where p = anonymous, OF _ _ _ _ _ c])
      (use v w b in \<open>simp_all add: g anonymous_satisfies ex_request_def request_target_def ex_route,
        simp add: ex_inner_def\<close>)
  have x: "x_parse_query ex_open_ext = ex_parse_query" by (simp add: ex_open_ext_def ex_ext_def)
  have "executable_op (x_from_slice ex_open_ext) ex_parse_query ''batch''
      (ed_fragments ex_doc) (ed_operations ex_doc ! 1)"
    by (rule ex_executable_W
        [where req = "\<lparr>gr_query = ''rw'', gr_operation_name = Some ''W''\<rparr>"])
      (auto simp: ex_open_ext_def)
  then show "\<exists>frags nop. executable_op (x_from_slice ex_open_ext) (x_parse_query ex_open_ext) ''batch''
      frags nop \<and> od_ty (snd nop) = OtMutation"
    unfolding x using ex_doc_W by blast
qed

text \<open>
  C5. A caller without a credential of the configured kind gets no further than reads: if its request
  is forwarded then anonymous reads are enabled, the request was classified as a read, and no
  override asks for any scope but \<^verbatim>\<open>read\<close>.
\<close>

theorem anonymous_only_reads:
  assumes "gw_sent (snd (handle x rq gw)) \<noteq> gw_sent gw"
    and "backend_verdict (x_ct_eq x) (x_decode x) (in_authenticator (gw_inner gw))
      \<lparr>cr_bearer = extract_bearer (x_to_str x) (rq_headers rq), cr_client_cert = rq_client_cert rq\<rparr> = None"
    and "x_to_bytes x (rq_body rq) (in_body_limit (gw_inner gw)) = Ok body"
  shows "in_allow_anonymous_read (gw_inner gw) \<and>
    (\<exists>c. classified x rq (gw_inner gw) body = Ok c \<and> cl_scope c = ScopeRead \<and>
       required_set c (in_policy (gw_inner gw)) \<subseteq> {''read''})"
proof -
  from assms(1) obtain p body' c base r where p: "verdict x rq (gw_inner gw) = Ok p"
    and b: "x_to_bytes x (rq_body rq) (in_body_limit (gw_inner gw)) = Ok body'"
    and c: "classified x rq (gw_inner gw) body' = Ok c"
    and r: "authorize p c (in_policy (gw_inner gw)) = Ok r"
    by (rule handle_forwarded)
  from p have anon: "in_allow_anonymous_read (gw_inner gw)" "p = anonymous"
    unfolding verdict_def backend_verdict_None [OF assms(2)] by (simp_all split: if_splits)
  from r anon(2) have req: "required_set c (in_policy (gw_inner gw)) \<subseteq> {''read''}"
    by (auto simp: authorize_Ok_iff anonymous_satisfies)
  moreover have "cl_scope c = ScopeRead"
    using req by (cases "cl_scope c") (auto simp: required_set_def)
  ultimately show ?thesis using anon(1) c b assms(3) by auto
qed

theorem anonymous_only_reads_witness:
  "\<exists>c. classified ex_ext (ex_request [] ''POST'' ''/'' ''read'') (gw_inner (ex_gateway True)) ''read'' = Ok c \<and>
     cl_scope c = ScopeRead \<and> required_set c (in_policy (gw_inner (ex_gateway True))) \<subseteq> {''read''}"
proof (rule anonymous_only_reads [THEN conjunct2])
  let ?rq = "ex_request [] ''POST'' ''/'' ''read''"
  let ?c = "\<lparr>cl_operations = [ex_read_info], cl_scope = ScopeRead\<rparr>"
  have g: "gw_inner (ex_gateway True) = ex_inner True" "gw_sent (ex_gateway True) = []"
    by (simp_all add: ex_gateway_def)
  have t: "request_target ?rq = ''/''" "rq_method ?rq = ''POST''"
    by (simp_all add: ex_request_def request_target_def)
  have "classified ex_ext ?rq (ex_inner True) ''read'' = Ok ?c"
    using ex_classify_read by (simp add: classified_def classify_request_def t ex_route ex_ext_def)
  moreover have "\<exists>r. authorize anonymous ?c (in_policy (ex_inner True)) = Ok r"
    by (simp add: ex_inner_def authorize_Ok_iff required_set_def ex_policy_def override_matches_def
      ex_read_info_def anonymous_satisfies)
  ultimately have "decide ex_ext ?rq (ex_inner True) = Forward anonymous ''read'' ?c"
    unfolding decide_Forward_iff by (simp add: ex_verdict_anonymous ex_to_bytes ex_within)
  then show "gw_sent (snd (handle ex_ext ?rq (ex_gateway True))) \<noteq> gw_sent (ex_gateway True)"
    unfolding handle_sent g by (simp add: upstream_result_def forward_sent t ex_route g)
  show "x_to_bytes ex_ext (rq_body ?rq) (in_body_limit (gw_inner (ex_gateway True))) = Ok ''read''"
    by (simp add: g ex_to_bytes)
  show "backend_verdict (x_ct_eq ex_ext) (x_decode ex_ext) (in_authenticator (gw_inner (ex_gateway True)))
      \<lparr>cr_bearer = extract_bearer (x_to_str ex_ext) (rq_headers ?rq), cr_client_cert = rq_client_cert ?rq\<rparr> = None"
    by (simp add: g ex_inner_def backend_verdict_def ex_request_def extract_bearer_def header_get_def)
qed

section \<open>What the client sees\<close>

text \<open>
  A refused authentication tells the caller nothing: whatever the reason, the backend, the
  request and the state, the response is the same, with status 401 and the advertised scheme.
\<close>

lemma auth_failure_uniform:
  assumes "verdict x rq (gw_inner gw) = Err e" and "verdict x' rq' (gw_inner gw') = Err e'"
    and "x_json_print x = x_json_print x'"
  shows "fst (handle x rq gw) = fst (handle x' rq' gw') \<and> rs_status (fst (handle x rq gw)) = 401 \<and>
    header_get (rs_headers (fst (handle x rq gw))) ''www-authenticate'' = Some ''Bearer''"
proof -
  from assms(1,2) have "decide x rq (gw_inner gw) = Unauthenticated e"
    "decide x' rq' (gw_inner gw') = Unauthenticated e'"
    by (simp_all add: decide_Unauthenticated_iff)
  with assms(3) show ?thesis
    unfolding handle_response by (simp add: error_response_def header_get_def)
qed

definition ex_bad_auth :: headers where
  "ex_bad_auth = [(''authorization'', ''Bearer wrong'')]"

lemma ex_verdict_bad: "verdict ex_ext (ex_request ex_bad_auth m path body) (ex_inner fc) = Err InvalidToken"
proof -
  have t: "extract_bearer Some ex_bad_auth = Some ''wrong''"
    by (simp add: extract_bearer_def header_get_def ex_bad_auth_def trim_def trim_start_def trim_end_def ws_chars_def)
  show ?thesis
    unfolding verdict_def ex_ext_def ex_inner_def ex_request_def authenticate_def bearer_of_def
      static_token_verify_def
    by (simp add: t anonymous_fallback_def)
qed

text \<open>
  C19. Transparent relay: when a request was sent, the client gets the status and the body of the
  upstream and all its headers but the hop-by-hop ones and \<^verbatim>\<open>content-length\<close>; if sending or reading
  failed it gets a 502. When nothing was sent, the status is one of 401, 413, 400, 403, 429 and 404.
\<close>

theorem response_exact:
  assumes "x_builder_ok x"
  shows "if gw_sent (snd (handle x rq gw)) = gw_sent gw
    then rs_status (fst (handle x rq gw)) \<in> {401, 413, 400, 403, 429, 404}
    else case and_then (x_send x (last (gw_sent (snd (handle x rq gw)))))
                (\<lambda>reply. map_ok (Pair reply) (x_read_bytes x (rp_body reply))) of
        Inr (reply, body) \<Rightarrow>
          rs_status (fst (handle x rq gw)) = rp_status reply \<and> rs_body (fst (handle x rq gw)) = body \<and>
          (\<forall>n. get_all (rs_headers (fst (handle x rq gw))) n =
             (if is_hop_by_hop n \<or> n = ''content-length'' then [] else get_all (rp_headers reply) n))
      | Inl e \<Rightarrow> rs_status (fst (handle x rq gw)) = 502"
proof (cases "decide x rq (gw_inner gw)")
  case (Forward p body c)
  show ?thesis
  proof (cases "base_for (in_proxy (gw_inner gw)) (fst (route (request_target rq)))")
    case (Inl e)
    then have "gw_sent (snd (handle x rq gw)) = gw_sent gw"
      unfolding handle_sent Forward by (simp add: upstream_result_def forward_sent)
    moreover from Inl have "fst (upstream_result x rq gw body) = Err (NoUpstream (fst (route (request_target rq))))"
      unfolding upstream_result_def forward_NoUpstream by blast
    ultimately show ?thesis
      unfolding handle_response Forward by (simp add: error_response_def)
  next
    case (Inr base)
    let ?req = "\<lparr>ur_method = rq_method rq, ur_url = base @ snd (route (request_target rq)),
      ur_headers = filter_forward_headers (rq_headers rq), ur_body = body\<rparr>"
    from Inr have s: "gw_sent (snd (handle x rq gw)) = gw_sent gw @ [?req]"
      unfolding handle_sent Forward by (simp add: upstream_result_def forward_sent)
    have u: "fst (upstream_result x rq gw body) =
        and_then (map_err Upstream (x_send x ?req)) (\<lambda>reply.
          map_ok (\<lambda>b. \<lparr>prs_status = rp_status reply, prs_headers = rp_headers reply, prs_body = b\<rparr>)
            (map_err Upstream (x_read_bytes x (rp_body reply))))"
      using Inr by (simp add: upstream_result_def forward_def Let_def case_prod_beta)
    show ?thesis
    proof (cases "x_send x ?req")
      case (Inl e)
      then show ?thesis
        unfolding s handle_response Forward decision_response.simps u by (simp add: error_response_def)
    next
      case (Inr reply)
      then show ?thesis
        unfolding s handle_response Forward decision_response.simps u using assms
        by (cases "x_read_bytes x (rp_body reply)")
          (simp_all add: relay_response_def error_response_def to_client.keep_get_all)
    qed
  qed
qed (simp_all add: handle_sent handle_response error_response_def)

theorem response_exact_witness:
  "rs_status (fst (handle ex_ext (ex_request ex_auth ''POST'' ''/'' ''forged'') (ex_gateway True))) = 200 \<and>
   rs_body (fst (handle ex_ext (ex_request ex_auth ''POST'' ''/'' ''forged'') (ex_gateway True))) = ''pong''"
proof -
  have e: "x_builder_ok ex_ext" "x_send ex_ext = ex_send" "x_read_bytes ex_ext = Ok"
    by (simp_all add: ex_ext_def)
  have s: "gw_sent (ex_gateway True) = []" by (simp add: ex_gateway_def)
  show ?thesis
    using response_exact [OF e(1), of "ex_request ex_auth ''POST'' ''/'' ''forged''" "ex_gateway True"]
    unfolding ex_sent_write by (simp add: s e ex_send_def)
qed

section \<open>The audit trail\<close>

text \<open>
  C17. With a working sink a request leaves at most one line in the audit log, the JSON form of a
  record that carries the peer address and the principal (a dash if there is none) and says
  \<^verbatim>\<open>allowed\<close> exactly for an admitted request. There is no line in two cases only: a body that
  cannot be read within the limit, and a read that the upstream answered while reads are not audited.
\<close>

theorem audit_exactly_once:
  assumes "in_audit (gw_inner gw) \<noteq> Null" and "io_lock_ok (x_io x)"
    and "\<And>line. io_write_error (x_io x) line = None"
  shows "\<exists>rs. al_lines (gw_audit (snd (handle x rq gw))) =
      al_lines (gw_audit gw) @ map (to_json_line (x_to_string x)) rs \<and> length rs \<le> 1 \<and>
    (rs = [] \<longleftrightarrow> decide x rq (gw_inner gw) = TooLarge \<or>
       (\<exists>p body c up. decide x rq (gw_inner gw) = Forward p body c \<and> cl_scope c = ScopeRead \<and>
          \<not> in_audit_reads (gw_inner gw) \<and> fst (upstream_result x rq gw body) = Ok up)) \<and>
    (\<forall>r \<in> set rs. ar_source_ip r = Some (rq_peer_ip rq) \<and>
       ar_principal r = (case verdict x rq (gw_inner gw) of Inl e \<Rightarrow> ''-'' | Inr p \<Rightarrow> pr_name p) \<and>
       (ar_outcome r = Allowed \<longleftrightarrow> (\<exists>p body c. decide x rq (gw_inner gw) = Forward p body c)))"
proof (cases "decision_record x rq gw (decide x rq (gw_inner gw))")
  case None
  then show ?thesis
    unfolding handle_audit using decision_record_None_iff [of x rq gw "decide x rq (gw_inner gw)"]
    by (intro exI [of _ "[]"]) simp
next
  case (Some r)
  have "al_lines (emit (x_to_string x) (x_io x) (in_audit (gw_inner gw)) r (gw_audit gw)) =
      al_lines (gw_audit gw) @ [to_json_line (x_to_string x) r]"
    using assms by (cases "in_audit (gw_inner gw)") (simp_all add: emit_def write_line_def)
  with Some decision_record_who [OF Some] show ?thesis
    unfolding handle_audit using decision_record_None_iff [of x rq gw "decide x rq (gw_inner gw)"]
    by (intro exI [of _ "[r]"]) simp
qed

theorem audit_exactly_once_witness:
  "\<exists>rs. al_lines (gw_audit (snd (handle ex_ext (ex_request ex_auth ''POST'' ''/'' ''forged'') (ex_gateway True)))) =
     map (to_json_line (x_to_string ex_ext)) rs \<and> length rs = 1 \<and> ar_principal (hd rs) = ''op''"
proof -
  let ?rq = "ex_request ex_auth ''POST'' ''/'' ''forged''"
  have g: "gw_inner (ex_gateway True) = ex_inner True" "al_lines (gw_audit (ex_gateway True)) = []"
    by (simp_all add: ex_gateway_def)
  have "in_audit (gw_inner (ex_gateway True)) \<noteq> Null" "io_lock_ok (x_io ex_ext)"
    "\<And>line. io_write_error (x_io ex_ext) line = None"
    by (simp_all add: g ex_inner_def ex_ext_def)
  from audit_exactly_once [OF this, of ?rq] obtain rs where
    rs: "al_lines (gw_audit (snd (handle ex_ext ?rq (ex_gateway True)))) = map (to_json_line (x_to_string ex_ext)) rs"
    "length rs \<le> 1" "rs \<noteq> []" "\<forall>r \<in> set rs. ar_principal r = ''op''"
    by (auto simp: g ex_decide_write ex_classification_def ex_verdict_op ex_op_def principal_new_def)
  then show ?thesis by (intro exI [of _ rs]) (cases rs, auto)
qed

text \<open>
  C18. Variables stay out of the log: unless raw variables are switched on, two requests that differ
  in their bodies only, whose bodies are read as the same queries and operation names, whose variables
  have the same fingerprint and which the upstream answers with the same status (or error) leave the
  same audit log, down to the error text of a rejection; and no record carries the values.
\<close>

theorem variables_confidential:
  assumes "\<not> in_log_variables (gw_inner gw)"
    and "x_to_bytes x (rq_body rq) (in_body_limit (gw_inner gw)) = Ok body"
    and "x_to_bytes x raw (in_body_limit (gw_inner gw)) = Ok body'"
    and "x_from_slice x body' = x_from_slice x body"
    and "map_option (hash_variables (x_to_vec x) (x_sha256_hex x)) (extract_variables (x_value_from_slice x) body') =
      map_option (hash_variables (x_to_vec x) (x_sha256_hex x)) (extract_variables (x_value_from_slice x) body)"
    and "map_sum (\<lambda>_. ()) prs_status (fst (upstream_result x (rq\<lparr>rq_body := raw\<rparr>) gw body')) =
      map_sum (\<lambda>_. ()) prs_status (fst (upstream_result x rq gw body))"
  shows "gw_audit (snd (handle x (rq\<lparr>rq_body := raw\<rparr>) gw)) = gw_audit (snd (handle x rq gw)) \<and>
    ar_variables ` set_option (decision_record x rq gw (decide x rq (gw_inner gw))) \<subseteq> {None}"
proof
  let ?rq' = "rq\<lparr>rq_body := raw\<rparr>" and ?d = "decide x rq (gw_inner gw)"
  let ?d' = "case ?d of Forward p b c \<Rightarrow> Forward p body' c | d \<Rightarrow> d"
  have "request_target ?rq' = request_target rq"
    by (simp add: request_target_def cong: option.case_cong)
  moreover have "classify (x_from_slice x) parse body' = classify (x_from_slice x) parse body" for parse
    by (simp add: classify_def assms(4))
  ultimately have same: "verdict x ?rq' st = verdict x rq st" "classified x ?rq' st body' = classified x rq st body" for st
    by (simp_all add: verdict_def classified_def classify_request_def)
  have d: "decide x ?rq' (gw_inner gw) = ?d'"
    using assms(2,3)
    by (auto simp: decide_def decide_on_body_def same split: sum.split)
  have b: "b = body" if "?d = Forward p b c" for p b c
    using that assms(2) by (simp add: decide_Forward_iff)
  have "decision_record x ?rq' gw ?d' = decision_record x rq gw ?d"
  proof (cases ?d)
    case (Forward p b' c)
    with b have body: "b' = body" by blast
    from assms(1,5,6) show ?thesis
      unfolding Forward body
      by (cases "fst (upstream_result x rq gw body)";
          cases "fst (upstream_result x ?rq' gw body')") (simp_all add: Let_def)
  qed simp_all
  then show "gw_audit (snd (handle x ?rq' gw)) = gw_audit (snd (handle x rq gw))"
    unfolding handle_audit d by simp
  show "ar_variables ` set_option (decision_record x rq gw ?d) \<subseteq> {None}"
    using decision_record_variables [OF _ assms(1), of x rq ?d] by auto
qed

text \<open>Bodies that are read as the same mutation and carry themselves as the variables.\<close>

definition ex_vars_ext :: "(unit, string \<Rightarrow> gcra_cell, rat, bytes, bytes) ext" where
  "ex_vars_ext = ex_ext\<lparr>x_from_slice := (\<lambda>_. ex_from_slice ''forged''),
     x_value_from_slice := (\<lambda>body. Some (JObject [(''variables'', JString body)]))\<rparr>"

theorem variables_confidential_witness:
  "extract_variables (x_value_from_slice ex_vars_ext) ''key1'' \<noteq> extract_variables (x_value_from_slice ex_vars_ext) ''key2'' \<and>
   gw_audit (snd (handle ex_vars_ext (ex_request ex_auth ''POST'' ''/'' ''key2'') (ex_gateway True))) =
   gw_audit (snd (handle ex_vars_ext (ex_request ex_auth ''POST'' ''/'' ''key1'') (ex_gateway True)))"
proof
  have rq: "ex_request ex_auth ''POST'' ''/'' ''key2'' = ex_request ex_auth ''POST'' ''/'' ''key1''\<lparr>rq_body := ''key2''\<rparr>"
    by (simp add: ex_request_def)
  have g: "gw_inner (ex_gateway True) = ex_inner True" by (simp add: ex_gateway_def)
  have vars: "extract_variables (x_value_from_slice ex_vars_ext) b = Some (JString b)" for b
    by (simp add: ex_vars_ext_def ex_ext_def extract_variables_def map_remove_def)
  then show "extract_variables (x_value_from_slice ex_vars_ext) ''key1'' \<noteq>
      extract_variables (x_value_from_slice ex_vars_ext) ''key2''" by simp
  have up: "map_sum (\<lambda>_. ()) prs_status (fst (upstream_result ex_vars_ext (ex_request ex_auth ''POST'' ''/'' b) (ex_gateway True) b')) =
      Inr 200" for b b'
    by (simp add: upstream_result_def forward_def ex_request_def request_target_def ex_route g ex_inner_def
      proxy_new_def ex_vars_ext_def ex_ext_def ex_send_def result_simps)
  have x: "x_to_bytes ex_vars_ext b limit = (if length b \<le> unat limit then Ok b else Err ''length limit exceeded'')"
    "x_from_slice ex_vars_ext b = ex_from_slice ''forged''" "x_to_vec ex_vars_ext = (\<lambda>_. Some [])"
    "x_sha256_hex ex_vars_ext = (\<lambda>_. ''e3b0'')" "hash_variables (\<lambda>_. Some []) (\<lambda>_. ''e3b0'') v = ''e3b0''"
    "rq_body (ex_request ex_auth ''POST'' ''/'' b) = b" "in_body_limit (ex_inner True) = 1024 * 1024"
    "\<not> in_log_variables (ex_inner True)" for b limit v
    by (simp_all add: ex_vars_ext_def ex_ext_def ex_request_def ex_inner_def hash_variables_def)
  show "gw_audit (snd (handle ex_vars_ext (ex_request ex_auth ''POST'' ''/'' ''key2'') (ex_gateway True))) =
    gw_audit (snd (handle ex_vars_ext (ex_request ex_auth ''POST'' ''/'' ''key1'') (ex_gateway True)))"
    unfolding rq
    by (rule variables_confidential [where body = "''key1''" and body' = "''key2''", THEN conjunct1])
      (simp_all add: g vars up rq [symmetric] x)
qed

section \<open>Refusals\<close>

text \<open>
  A request that is not authenticated, not readable, not classifiable or not authorized costs
  nothing but its audit record and its counter: the limiters keep their state, nothing is sent and
  nothing else of the gateway changes.
\<close>

lemma refusal_is_free:
  assumes "\<nexists>p body c granted. verdict x rq (gw_inner gw) = Ok p \<and>
      x_to_bytes x (rq_body rq) (in_body_limit (gw_inner gw)) = Ok body \<and>
      classified x rq (gw_inner gw) body = Ok c \<and> authorize p c (in_policy (gw_inner gw)) = Ok granted"
  shows "gw_inner (snd (handle x rq gw)) = gw_inner gw \<and> gw_sent (snd (handle x rq gw)) = gw_sent gw \<and>
    requests_total (gw_metrics (snd (handle x rq gw))) = requests_total (gw_metrics gw) \<and>
    rs_status (fst (handle x rq gw)) \<in> {401, 413, 400, 403}"
proof (cases "decide x rq (gw_inner gw)")
  case (OverBudget p c)
  with assms show ?thesis by (auto simp: decide_OverBudget_iff)
next
  case (Forward p body c)
  with assms show ?thesis by (auto simp: decide_Forward_iff)
qed (simp_all add: handle_inner handle_sent handle_metrics handle_response error_response_def inc_defs)

text \<open>
  C40. A credential under another scheme does not count as one: with a token backend and anonymous
  reads enabled, a caller whose \<^verbatim>\<open>authorization\<close> header is absent, is not printable text, or does
  not start with \<^verbatim>\<open>Bearer\<close> and a space, in just this spelling, passes authentication as the
  anonymous principal, with no trace, instead of being refused.
\<close>

theorem foreign_scheme_is_anonymous:
  assumes "\<nexists>token. Option.bind (header_get (rq_headers rq) ''authorization'') (x_to_str x) = Some (''Bearer '' @ token)"
    and "in_allow_anonymous_read (gw_inner gw)"
    and "in_authenticator (gw_inner gw) = AuthBearer b \<or> in_authenticator (gw_inner gw) = AuthJwt j"
  shows "authn_stage x rq gw = (Ok anonymous, gw)"
proof -
  have "extract_bearer (x_to_str x) (rq_headers rq) = None"
  proof (cases "Option.bind (header_get (rq_headers rq) ''authorization'') (x_to_str x)")
    case None
    then show ?thesis unfolding extract_bearer_def bind_assoc [symmetric] by simp
  next
    case (Some header)
    with assms(1) have "strip_prefix ''Bearer '' header = None" unfolding strip_prefix_None_iff by simp
    with Some show ?thesis unfolding extract_bearer_def bind_assoc [symmetric] by (simp del: strip_prefix.simps)
  qed
  with assms(2,3) have "verdict x rq (gw_inner gw) = Ok anonymous"
    unfolding verdict_def by (subst backend_verdict_None) (auto simp: backend_verdict_def)
  then show ?thesis by (simp add: authn_stage_eq)
qed

theorem foreign_scheme_is_anonymous_witness:
  "authn_stage ex_ext (ex_request [(''authorization'', ''bearer t2'')] ''POST'' ''/'' ''forged'') (ex_gateway True) =
     (Ok anonymous, ex_gateway True)"
  by (rule foreign_scheme_is_anonymous)
    (simp_all add: ex_request_def header_get_def ex_ext_def ex_gateway_def ex_inner_def)

end
